theory Spec2Isabelle
  imports Main "HOL-Library.Word"
begin

section \<open>Strings\<close>

text \<open>
  A JavaScript string is a sequence of UTF-16 code units; \<open>charCodeAt\<close> reads one of
  them, a number from 0 to 65535. The fixed text of the source is ASCII and is written
  as an Isabelle string; \<open>js\<close> turns it into code units.
\<close>

type_synonym jsstring = "16 word list"

definition js :: "string \<Rightarrow> jsstring" where
  "js s = map (\<lambda>c. word_of_nat (of_char c)) s"

section \<open>Cache keys: \<open>simpleHash\<close>\<close>

text \<open>
  \<open>ToInt32\<close> is the conversion that the operators \<open><<\<close> and \<open>&\<close> apply to their
  operands and that their result has: the value modulo \<open>2^32\<close>, read as two's
  complement. All the numbers of \<open>simpleHash\<close> are integers far below \<open>2^53\<close>, where
  the arithmetic of JavaScript numbers is exact.
\<close>

definition ToInt32 :: "int \<Rightarrow> int" where
  "ToInt32 x = (x + 2 ^ 31) mod 2 ^ 32 - 2 ^ 31"

text \<open>
  The body of the \<open>for\<close> loop: \<open>hash = ((hash << 5) - hash) + char; hash = hash & hash\<close>.
  The shift gives a 32-bit integer, the subtraction and the addition are those of
  numbers, and \<open>hash & hash\<close> converts the sum to a 32-bit integer again.
\<close>

fun hash_loop :: "int \<Rightarrow> jsstring \<Rightarrow> int" where
  "hash_loop hash [] = hash"
| "hash_loop hash (char # str) =
     hash_loop (ToInt32 ((ToInt32 (ToInt32 hash * 2 ^ 5) - hash) + uint char)) str"

definition digit36 :: "nat \<Rightarrow> char" where
  "digit36 d = ''0123456789abcdefghijklmnopqrstuvwxyz'' ! d"

fun radix36 :: "nat \<Rightarrow> string" where
  "radix36 n = (if n < 36 then [digit36 n] else radix36 (n div 36) @ [digit36 (n mod 36)])"

declare radix36.simps [simp del]

text \<open>\<open>Number.prototype.toString(36)\<close> of an integer: a minus sign, then the digits.\<close>

definition toString36 :: "int \<Rightarrow> jsstring" where
  "toString36 n = js (if n < 0 then CHR ''-'' # radix36 (nat (- n)) else radix36 (nat n))"

definition simpleHash :: "jsstring \<Rightarrow> jsstring" where
  "simpleHash str = toString36 (hash_loop 0 str)"

section \<open>The \<open>Map\<close> of JavaScript\<close>

text \<open>
  A \<open>Map\<close> keeps its entries in insertion order, one entry per key: an association
  list, oldest entry first. \<open>set\<close> on a key that is present replaces the value in
  place; on a new key it appends. \<open>keys().next().value\<close> is the first key, or
  \<open>undefined\<close> (here \<open>None\<close>) when the map is empty.
\<close>

type_synonym 'v jsmap = "(jsstring \<times> 'v) list"

definition Map_has :: "'v jsmap \<Rightarrow> jsstring \<Rightarrow> bool" where
  "Map_has m key = (key \<in> set (map fst m))"

definition Map_get :: "'v jsmap \<Rightarrow> jsstring \<Rightarrow> 'v option" where
  "Map_get m key = map_of m key"

definition Map_delete :: "'v jsmap \<Rightarrow> jsstring \<Rightarrow> 'v jsmap" where
  "Map_delete m key = filter (\<lambda>e. fst e \<noteq> key) m"

definition Map_set :: "'v jsmap \<Rightarrow> jsstring \<Rightarrow> 'v \<Rightarrow> 'v jsmap" where
  "Map_set m key v =
     (if Map_has m key then map (\<lambda>e. if fst e = key then (key, v) else e) m
      else m @ [(key, v)])"

definition Map_size :: "'v jsmap \<Rightarrow> nat" where
  "Map_size m = length m"

definition Map_first_key :: "'v jsmap \<Rightarrow> jsstring option" where
  "Map_first_key m = (case m of [] \<Rightarrow> None | e # _ \<Rightarrow> Some (fst e))"

section \<open>\<open>WorkerCache\<close>\<close>

text \<open>
  The class has two fields. \<open>maxSize\<close> is a count of entries, a natural number here
  (the two caches of the source are built with 20 and with 5). A stored value is never
  \<open>undefined\<close>, so \<open>get\<close> returning \<open>undefined\<close> is \<open>None\<close>.
\<close>

record 'v WorkerCache =
  cache :: "'v jsmap"
  maxSize :: nat

definition WorkerCache_new :: "nat \<Rightarrow> 'v WorkerCache" where
  "WorkerCache_new m = \<lparr>cache = [], maxSize = m\<rparr>"

text \<open>\<open>get\<close> returns the value and the cache after the call.\<close>

definition WorkerCache_get :: "'v WorkerCache \<Rightarrow> jsstring \<Rightarrow> 'v option \<times> 'v WorkerCache" where
  "WorkerCache_get c key =
     (case Map_get (cache c) key of
        Some v \<Rightarrow> (Some v, c\<lparr>cache := Map_set (Map_delete (cache c) key) key v\<rparr>)
      | None \<Rightarrow> (None, c))"

text \<open>
  The \<open>while\<close> loop of \<open>set\<close>. When \<open>maxSize\<close> is 0 and the map is empty the loop
  deletes nothing and goes on forever: the loop is a partial function, \<open>None\<close> when it
  does not return.
\<close>

partial_function (option) evict :: "nat \<Rightarrow> 'v jsmap \<Rightarrow> 'v jsmap option" where
  "evict m mp =
     (if Map_size mp \<ge> m then
        (case Map_first_key mp of
           Some oldestKey \<Rightarrow> evict m (Map_delete mp oldestKey)
         | None \<Rightarrow> evict m mp)
      else Some mp)"

declare evict.simps [code]

definition WorkerCache_set :: "'v WorkerCache \<Rightarrow> jsstring \<Rightarrow> 'v \<Rightarrow> 'v WorkerCache option" where
  "WorkerCache_set c key v =
     (case evict (maxSize c)
             (if Map_has (cache c) key then Map_delete (cache c) key else cache c) of
        None \<Rightarrow> None
      | Some mp \<Rightarrow> Some (c\<lparr>cache := Map_set mp key v\<rparr>))"

subsection \<open>Sequences of calls\<close>

datatype 'v cache_op = Get jsstring | Set jsstring 'v

fun apply_op :: "'v WorkerCache \<Rightarrow> 'v cache_op \<Rightarrow> 'v WorkerCache option" where
  "apply_op c (Get key) = Some (snd (WorkerCache_get c key))"
| "apply_op c (Set key v) = WorkerCache_set c key v"

fun run_ops :: "'v WorkerCache \<Rightarrow> 'v cache_op list \<Rightarrow> 'v WorkerCache option" where
  "run_ops c [] = Some c"
| "run_ops c (x # xs) = (case apply_op c x of None \<Rightarrow> None | Some c' \<Rightarrow> run_ops c' xs)"

text \<open>
  Recency as a ghost clock: \<open>recency c xs t s\<close> runs the calls \<open>xs\<close> from the cache
  \<open>c\<close>, the clock at \<open>t\<close>, and stamps a key with the time of the call whenever \<open>get\<close>
  hits it or \<open>set\<close> stores it. \<open>s key\<close> is the time of the last such call, 0 when
  there was none.
\<close>

fun recency ::
  "'v WorkerCache \<Rightarrow> 'v cache_op list \<Rightarrow> nat \<Rightarrow> (jsstring \<Rightarrow> nat) \<Rightarrow> (jsstring \<Rightarrow> nat) option"
where
  "recency c [] t s = Some s"
| "recency c (Get key # xs) t s =
     recency (snd (WorkerCache_get c key)) xs (Suc t)
       (if fst (WorkerCache_get c key) = None then s else s(key := t))"
| "recency c (Set key v # xs) t s =
     (case WorkerCache_set c key v of
        None \<Rightarrow> None
      | Some c' \<Rightarrow> recency c' xs (Suc t) (s(key := t)))"

text \<open>
  The invariant of the cache with its ghost clock: one entry per key, the entries in
  the order of their stamps, every stamp before the clock, and no more entries than
  \<open>maxSize\<close>.
\<close>

definition lru_inv :: "'v WorkerCache \<Rightarrow> nat \<Rightarrow> (jsstring \<Rightarrow> nat) \<Rightarrow> bool" where
  "lru_inv c t s \<longleftrightarrow>
     distinct (map fst (cache c)) \<and> sorted_wrt (\<lambda>a b. s a < s b) (map fst (cache c)) \<and>
     (\<forall>k \<in> set (map fst (cache c)). s k < t) \<and> length (cache c) \<le> maxSize c"

section \<open>Values in the sandbox\<close>

text \<open>
  The values that cross the boundary of a sandbox or come out of a JSON body. \<open>Num\<close>
  holds the integers from \<open>-2^53\<close> up to \<open>2^53\<close>, as 54-bit words read in two's
  complement: these are numbers of JavaScript and print in plain decimal; fractions
  and larger numbers are not in the model. An object is the list of its own
  properties, one entry per name, none of them a function. An \<open>Error\<close> instance is an
  object with the properties \<open>message\<close> and \<open>stack\<close>.
\<close>

type_synonym safe_integer = "54 word"

datatype jsval =
    Undefined
  | Null
  | Bool bool
  | Num safe_integer
  | Str jsstring
  | Arr "jsval list"
  | Obj "(jsstring \<times> jsval) list"

text \<open>
  What a statement can throw on the host side or a call can fail with: an \<open>Error\<close>
  built with a message, or one of the errors of the engine (reading a property of
  \<open>null\<close> or \<open>undefined\<close>, calling what is not a function, parsing what is not JSON),
  whose messages the engine chooses.
\<close>

datatype failure = Error jsstring | TypeError | SyntaxError

fun truthy :: "jsval \<Rightarrow> bool" where
  "truthy Undefined = False"
| "truthy Null = False"
| "truthy (Bool b) = b"
| "truthy (Num n) = (n \<noteq> 0)"
| "truthy (Str s) = (s \<noteq> [])"
| "truthy (Arr xs) = True"
| "truthy (Obj fs) = True"

text \<open>
  Reading a property \<open>v.p\<close>, for the names the source reads (\<open>success\<close>, \<open>errors\<close>,
  \<open>code\<close>, \<open>message\<close>, \<open>stack\<close>), which no prototype of these values defines.
\<close>

fun member :: "jsval \<Rightarrow> jsstring \<Rightarrow> failure + jsval" where
  "member Undefined p = Inl TypeError"
| "member Null p = Inl TypeError"
| "member (Obj fs) p = Inr (case map_of fs p of None \<Rightarrow> Undefined | Some v \<Rightarrow> v)"
| "member v p = Inr Undefined"

definition digit10 :: "nat \<Rightarrow> char" where
  "digit10 d = ''0123456789'' ! d"

fun decimal :: "nat \<Rightarrow> string" where
  "decimal n = (if n < 10 then [digit10 n] else decimal (n div 10) @ [digit10 (n mod 10)])"

declare decimal.simps [simp del]

definition NumberToString :: "safe_integer \<Rightarrow> jsstring" where
  "NumberToString n =
     js (if sint n < 0 then CHR ''-'' # decimal (nat (- sint n)) else decimal (nat (sint n)))"

text \<open>\<open>Array.prototype.join\<close> on strings.\<close>

fun join :: "jsstring \<Rightarrow> jsstring list \<Rightarrow> jsstring" where
  "join sep [] = []"
| "join sep [x] = x"
| "join sep (x # y # ys) = x @ sep @ join sep (y # ys)"

text \<open>
  The conversion to a string that \<open>+\<close> with a string operand and \<open>new Error(x)\<close>
  apply. An array joins its elements with a comma, \<open>null\<close> and \<open>undefined\<close> elements
  as the empty string. An object is converted by its \<open>toString\<close>: the inherited one
  gives \<open>[object Object]\<close>; an own property of that name hides it and, not being a
  function, leaves no way to a primitive value, which throws a \<open>TypeError\<close>.
\<close>

fun ToString :: "jsval \<Rightarrow> failure + jsstring"
  and ToStrings :: "jsval list \<Rightarrow> failure + jsstring list"
where
  "ToString Undefined = Inr (js ''undefined'')"
| "ToString Null = Inr (js ''null'')"
| "ToString (Bool b) = Inr (if b then js ''true'' else js ''false'')"
| "ToString (Num n) = Inr (NumberToString n)"
| "ToString (Str s) = Inr s"
| "ToString (Arr xs) =
     (case ToStrings xs of Inl f \<Rightarrow> Inl f | Inr ss \<Rightarrow> Inr (join (js '','') ss))"
| "ToString (Obj fs) =
     (if map_of fs (js ''toString'') = None then Inr (js ''[object Object]'') else Inl TypeError)"
| "ToStrings [] = Inr []"
| "ToStrings (x # xs) =
     (case (if x = Undefined \<or> x = Null then Inr [] else ToString x) of
        Inl f \<Rightarrow> Inl f
      | Inr s \<Rightarrow> (case ToStrings xs of Inl f \<Rightarrow> Inl f | Inr ss \<Rightarrow> Inr (s # ss)))"

text \<open>\<open>String.prototype.includes\<close>.\<close>

fun string_includes :: "jsstring \<Rightarrow> jsstring \<Rightarrow> bool" where
  "string_includes [] t = (t = [])"
| "string_includes (c # s) t = (take (length t) (c # s) = t \<or> string_includes s t)"

section \<open>The runtime embedded in an API sandbox: \<open>cloudflare.request\<close>\<close>

text \<open>
  What \<open>fetch\<close> resolves to, as far as \<open>request\<close> reads it: the \<open>content-type\<close> header
  (\<open>None\<close> when \<open>headers.get\<close> gives \<open>null\<close>), the status (an unsigned 16-bit
  number), the body as \<open>text()\<close> gives it and as \<open>json()\<close> gives it (a failure when
  the body does not parse). \<open>ok\<close> is the status being from 200 to 299.
\<close>

record response =
  content_type :: "jsstring option"
  status :: "16 word"
  body_text :: jsstring
  body_json :: "failure + jsval"

definition ok :: "response \<Rightarrow> bool" where
  "ok r = (200 \<le> unat (status r) \<and> unat (status r) \<le> 299)"

text \<open>\<open>e => e.code + ": " + e.message\<close>, and \<open>map\<close> of it over the elements.\<close>

definition error_line :: "jsval \<Rightarrow> failure + jsstring" where
  "error_line e =
     (case member e (js ''code'') of
        Inl f \<Rightarrow> Inl f
      | Inr c \<Rightarrow>
          (case ToString c of
             Inl f \<Rightarrow> Inl f
           | Inr cs \<Rightarrow>
               (case member e (js ''message'') of
                  Inl f \<Rightarrow> Inl f
                | Inr m \<Rightarrow>
                    (case ToString m of
                       Inl f \<Rightarrow> Inl f
                     | Inr ms \<Rightarrow> Inr (cs @ js '': '' @ ms)))))"

fun error_lines :: "jsval list \<Rightarrow> failure + jsstring list" where
  "error_lines [] = Inr []"
| "error_lines (e # es) =
     (case error_line e of
        Inl f \<Rightarrow> Inl f
      | Inr l \<Rightarrow> (case error_lines es of Inl f \<Rightarrow> Inl f | Inr ls \<Rightarrow> Inr (l # ls)))"

text \<open>
  The second half of \<open>request\<close>, from the response on. \<open>Inl\<close> is a \<open>throw\<close>,
  \<open>Inr\<close> the value returned to the embedded code.
\<close>

definition handle_response :: "response \<Rightarrow> failure + jsval" where
  "handle_response r =
     (let responseContentType = (case content_type r of None \<Rightarrow> [] | Some h \<Rightarrow> h) in
      if \<not> string_includes responseContentType (js ''application/json'') then
        (if \<not> ok r then
           Inl (Error (js ''Cloudflare API error: '' @ js (decimal (unat (status r))) @ js '' '' @ body_text r))
         else Inr (Obj [(js ''success'', Bool True), (js ''result'', Str (body_text r))]))
      else
        (case body_json r of
           Inl f \<Rightarrow> Inl f
         | Inr data \<Rightarrow>
             (case member data (js ''success'') of
                Inl f \<Rightarrow> Inl f
              | Inr success \<Rightarrow>
                  if \<not> truthy success then
                    (case member data (js ''errors'') of
                       Inl f \<Rightarrow> Inl f
                     | Inr (Arr es) \<Rightarrow>
                         (case error_lines es of
                            Inl f \<Rightarrow> Inl f
                          | Inr ls \<Rightarrow> Inl (Error (js ''Cloudflare API error: '' @ join (js '', '') ls)))
                     | Inr other \<Rightarrow> Inl TypeError)
                  else Inr data)))"

section \<open>The sandbox\<close>

text \<open>
  How \<open>await (code)()\<close> ends: with a value, or with a thrown value, which need not be
  an \<open>Error\<close>.
\<close>

datatype completion = Returns jsval | Throws jsval

text \<open>
  What \<open>evaluate\<close> returns. The object of the \<open>try\<close> branch has no \<open>stack\<close>, which
  reads as \<open>undefined\<close>.
\<close>

record outcome =
  result :: jsval
  err :: jsval
  stack :: jsval

text \<open>
  The code text is put into \<open>await (${code})()\<close> as it is. A text that is an expression
  is called there, and its call ends inside the \<open>try\<close>. A text that closes the
  parenthesis and goes on with statements of its own decides itself how \<open>evaluate\<close>
  ends: with any object, read by its \<open>result\<close>, \<open>err\<close> and \<open>stack\<close>, or with a failure
  outside the \<open>try\<close>. So does a text with which the module no longer parses: the
  call of \<open>evaluate\<close> fails before the \<open>try\<close> is reached.
\<close>

datatype spliced = Calls completion | Leaves "failure + outcome"

text \<open>
  What the embedded code can name: in an API sandbox \<open>apiBase\<close>, \<open>accountId\<close>, the
  \<open>apiToken\<close> of the call and \<open>cloudflare.request\<close>; in a search sandbox \<open>spec\<close>, given
  by the text of its literal.
\<close>

datatype scope =
    CodeScope jsstring jsstring jsval "jsval \<Rightarrow> failure + jsval"
  | SearchScope jsstring

text \<open>
  The \<open>try\<close>/\<open>catch\<close> of \<open>evaluate\<close>. The \<open>catch\<close> block reads \<open>err.message\<close> and
  \<open>err.stack\<close> of whatever was thrown; when that read fails, \<open>evaluate\<close> fails.
\<close>

definition evaluate_try :: "completion \<Rightarrow> failure + outcome" where
  "evaluate_try run =
     (case run of
        Returns r \<Rightarrow> Inr \<lparr>result = r, err = Undefined, stack = Undefined\<rparr>
      | Throws e \<Rightarrow>
          (case member e (js ''message'') of
             Inl f \<Rightarrow> Inl f
           | Inr m \<Rightarrow>
               (case member e (js ''stack'') of
                  Inl f \<Rightarrow> Inl f
                | Inr st \<Rightarrow> Inr \<lparr>result = Undefined, err = m, stack = st\<rparr>)))"

text \<open>The body of \<open>evaluate\<close> with the code text in it.\<close>

definition evaluate_body :: "spliced \<Rightarrow> failure + outcome" where
  "evaluate_body s = (case s of Calls run \<Rightarrow> evaluate_try run | Leaves r \<Rightarrow> r)"

subsection \<open>The definition of a worker\<close>







text \<open>
  The two modules. A module is the template with its slots filled: the API base, the
  account and the code; or the text of the specification and the code. \<open>module_text\<close>
  is the string the source builds, the fixed text around the slots.
\<close>

datatype module_source =
    CodeExecutor_js jsstring jsstring jsstring
  | SearchExecutor_js jsstring jsstring









text \<open>The object the callback given to \<open>LOADER.get\<close> returns.\<close>

record worker_code =
  compatibilityDate :: jsstring
  compatibilityFlags :: "jsstring list"
  mainModule :: jsstring
  modules :: "(jsstring \<times> module_source) list"

definition worker_definition :: "module_source \<Rightarrow> worker_code" where
  "worker_definition m =
     \<lparr>compatibilityDate = js ''2026-01-12'',
      compatibilityFlags = [js ''nodejs_compat''],
      mainModule = js ''worker.js'',
      modules = [(js ''worker.js'', m)]\<rparr>"

text \<open>
  A worker as the loader hands it out: the identifier it was asked for and the
  definition it runs.
\<close>

datatype worker = WorkerStub jsstring worker_code

text \<open>
  The three things outside the program. \<open>startup\<close> is the hosting capability behind a
  stub: \<open>LOADER.get\<close> is not awaited and hands out a stub at once; the sandbox is
  started when its entrypoint is first called, and \<open>startup\<close> gives the failure of
  that when the sandbox cannot be instantiated (a module text that does not parse is
  one reason). \<open>behaviour\<close> is the meaning of a code string put into the template, in
  a scope. \<open>upstream\<close> is the API: the first half of \<open>request\<close> builds the method, the
  URL, the headers (with the bearer token) and the body from \<open>apiBase\<close>, \<open>apiToken\<close>
  and the options, and \<open>upstream\<close> gives for these three what \<open>fetch\<close> resolves to, or
  its failure.
\<close>

record host =
  startup :: "worker \<Rightarrow> failure option"
  behaviour :: "jsstring \<Rightarrow> scope \<Rightarrow> spliced"
  upstream :: "jsstring \<Rightarrow> jsval \<Rightarrow> jsval \<Rightarrow> failure + response"

definition request :: "host \<Rightarrow> jsstring \<Rightarrow> jsval \<Rightarrow> jsval \<Rightarrow> failure + jsval" where
  "request h apiBase apiToken options =
     (case upstream h apiBase apiToken options of
        Inl f \<Rightarrow> Inl f
      | Inr r \<Rightarrow> handle_response r)"

text \<open>
  \<open>evaluate\<close> of the two classes. The API class passes the argument of the call on as
  \<open>apiToken\<close>; the search class takes no argument.
\<close>

fun module_evaluate :: "host \<Rightarrow> module_source \<Rightarrow> jsval \<Rightarrow> failure + outcome" where
  "module_evaluate h (CodeExecutor_js apiBase accountId code) apiToken =
     evaluate_body (behaviour h code (CodeScope apiBase accountId apiToken (request h apiBase apiToken)))"
| "module_evaluate h (SearchExecutor_js specJson code) arg =
     evaluate_body (behaviour h code (SearchScope specJson))"

text \<open>
  \<open>worker.getEntrypoint().evaluate(arg)\<close>: the sandbox is started if it can be, and
  the default export of the main module is called. A definition without its main
  module is not one the source builds.
\<close>

fun entrypoint_evaluate :: "host \<Rightarrow> worker \<Rightarrow> jsval \<Rightarrow> failure + outcome" where
  "entrypoint_evaluate h (WorkerStub workerId d) arg =
     (case startup h (WorkerStub workerId d) of
        Some f \<Rightarrow> Inl f
      | None \<Rightarrow>
          (case map_of (modules d) (mainModule d) of
             None \<Rightarrow> Inl (Error (js ''no main module''))
           | Some m \<Rightarrow> module_evaluate h m arg))"

section \<open>The executors\<close>

text \<open>
  \<open>env\<close>: the API base and the loader. \<open>LOADER.get(id, callback)\<close> gives the stub of a
  worker, or throws.
\<close>

record env =
  CLOUDFLARE_API_BASE :: jsstring
  LOADER_get :: "jsstring \<Rightarrow> worker_code \<Rightarrow> failure + worker"

text \<open>
  The end of both executors: call \<open>evaluate\<close>, throw \<open>new Error(response.err)\<close> when
  \<open>response.err\<close> is truthy, return \<open>response.result\<close> otherwise.
\<close>

definition invoke :: "host \<Rightarrow> worker \<Rightarrow> jsval \<Rightarrow> failure + jsval" where
  "invoke h w arg =
     (case entrypoint_evaluate h w arg of
        Inl f \<Rightarrow> Inl f
      | Inr response \<Rightarrow>
          if truthy (err response) then
            (case ToString (err response) of Inl f \<Rightarrow> Inl f | Inr m \<Rightarrow> Inl (Error m))
          else Inr (result response))"

text \<open>\<open>`${accountId}:${codeHash}`\<close>\<close>

definition apiCacheKey :: "jsstring \<Rightarrow> jsstring \<Rightarrow> jsstring" where
  "apiCacheKey accountId codeHash = accountId @ js '':'' @ codeHash"

text \<open>
  The function \<open>createCodeExecutor\<close> returns, with the cache it closes over as state:
  the result of the call (\<open>Inl\<close> when it throws) and the cache after it; \<open>None\<close> when
  the call does not return. The cache starts as \<open>new WorkerCache(20)\<close>.
\<close>

definition codeExecutor_workerCache :: "worker WorkerCache" where
  "codeExecutor_workerCache = WorkerCache_new 20"

definition executeCode ::
  "env \<Rightarrow> host \<Rightarrow> worker WorkerCache \<Rightarrow> jsstring \<Rightarrow> jsstring \<Rightarrow> jsstring \<Rightarrow>
   ((failure + jsval) \<times> worker WorkerCache) option"
where
  "executeCode e h workerCache code accountId apiToken =
     (let codeHash = simpleHash code;
          cacheKey = apiCacheKey accountId codeHash
      in case WorkerCache_get workerCache cacheKey of
           (Some worker, wc) \<Rightarrow> Some (invoke h worker (Str apiToken), wc)
         | (None, wc) \<Rightarrow>
             (case LOADER_get e (js ''cloudflare-api-'' @ cacheKey)
                     (worker_definition (CodeExecutor_js (CLOUDFLARE_API_BASE e) accountId code)) of
                Inl f \<Rightarrow> Some (Inl f, wc)
              | Inr worker \<Rightarrow>
                  (case WorkerCache_set wc cacheKey worker of
                     None \<Rightarrow> None
                   | Some wc' \<Rightarrow> Some (invoke h worker (Str apiToken), wc'))))"

text \<open>
  The function \<open>createSearchExecutor\<close> returns; \<open>specJson\<close> is
  \<open>JSON.stringify(spec)\<close>, the cache starts as \<open>new WorkerCache(5)\<close>, and \<open>evaluate\<close> is
  called without an argument.
\<close>

definition searchExecutor_workerCache :: "worker WorkerCache" where
  "searchExecutor_workerCache = WorkerCache_new 5"

definition executeSearch ::
  "env \<Rightarrow> host \<Rightarrow> jsstring \<Rightarrow> worker WorkerCache \<Rightarrow> jsstring \<Rightarrow>
   ((failure + jsval) \<times> worker WorkerCache) option"
where
  "executeSearch e h specJson workerCache code =
     (let codeHash = simpleHash code
      in case WorkerCache_get workerCache codeHash of
           (Some worker, wc) \<Rightarrow> Some (invoke h worker Undefined, wc)
         | (None, wc) \<Rightarrow>
             (case LOADER_get e (js ''cloudflare-search-'' @ codeHash)
                     (worker_definition (SearchExecutor_js specJson code)) of
                Inl f \<Rightarrow> Some (Inl f, wc)
              | Inr worker \<Rightarrow>
                  (case WorkerCache_set wc codeHash worker of
                     None \<Rightarrow> None
                   | Some wc' \<Rightarrow> Some (invoke h worker Undefined, wc'))))"

section \<open>The response truncator\<close>

text \<open>
  Modelled from the spec: \<open>truncateResponse\<close> of \<open>truncate.ts\<close>, which the servers
  import and call on every successful result and which is not among the sources. The
  spec gives its contract: a result is turned into a representation of bounded size,
  the budget is about 10,000 token-equivalents, and what is cut is marked with the
  original size. A token-equivalent is four characters, as in the repository's token
  counting script. \<open>serialize\<close> is the text of a result.
\<close>

text \<open>
  Modelled from the spec: the size of a text in token-equivalents, four characters to a
  token-equivalent, rounded up.
\<close>

definition token_equivalents :: "jsstring \<Rightarrow> nat" where
  "token_equivalents s = (length s + 3) div 4"

text \<open>Modelled from the spec: the configured budget, 10,000 token-equivalents.\<close>

definition truncation_budget :: nat where
  "truncation_budget = 10000"

text \<open>Modelled from the spec: the indicator of the original size of a truncated text.\<close>

definition size_indicator :: "nat \<Rightarrow> jsstring" where
  "size_indicator n = js ''... [truncated; original size: '' @ js (decimal n) @ js '' characters]''"

text \<open>
  Modelled from the spec: \<open>truncateResponse\<close> (missing: \<open>truncate.ts\<close>). A text within
  the budget is returned as it is; a longer one is cut so that the cut text and the
  indicator fit the budget together.
\<close>

definition truncateResponse :: "('r \<Rightarrow> jsstring) \<Rightarrow> 'r \<Rightarrow> jsstring" where
  "truncateResponse serialize r =
     (let s = serialize r in
      if token_equivalents s \<le> truncation_budget then s
      else take (4 * truncation_budget - length (size_indicator (length s))) s @
           size_indicator (length s))"

section \<open>Example environments\<close>

text \<open>
  Concrete surroundings for running the executors: a loader that hands out the worker
  it is asked for and one that cannot instantiate any; a host whose code strings return
  their own text, and one whose code returns the token (or the specification) in its
  scope.
\<close>

definition example_env :: env where
  "example_env =
     \<lparr>CLOUDFLARE_API_BASE = js ''https://api.cloudflare.com/client/v4'',
      LOADER_get = (\<lambda>workerId d. Inr (WorkerStub workerId d))\<rparr>"

definition echo_host :: host where
  "echo_host =
     \<lparr>startup = (\<lambda>w. None),
      behaviour = (\<lambda>code sc. Calls (Returns (Str code))),
      upstream = (\<lambda>apiBase apiToken options. Inl TypeError)\<rparr>"

definition cache_after_Aa :: "worker WorkerCache" where
  "cache_after_Aa =
     \<lparr>cache = [(js ''acct:1mo'',
                WorkerStub (js ''cloudflare-api-acct:1mo'')
                  (worker_definition
                     (CodeExecutor_js (js ''https://api.cloudflare.com/client/v4'') (js ''acct'') (js ''Aa''))))],
      maxSize = 20\<rparr>"

definition failing_env :: env where
  "failing_env =
     \<lparr>CLOUDFLARE_API_BASE = js ''https://api.cloudflare.com/client/v4'',
      LOADER_get = (\<lambda>workerId d. Inl (Error (js ''cannot instantiate'')))\<rparr>"


text \<open>
  A host on which no sandbox can be started, and one with the meaning of three code
  strings: one returns nothing, one throws \<open>null\<close>, and one closes the parenthesis of
  the template and returns an object of its own from \<open>evaluate\<close>.
\<close>

definition broken_host :: host where
  "broken_host =
     \<lparr>startup = (\<lambda>w. Some (Error (js ''cannot start''))),
      behaviour = (\<lambda>code sc. Calls (Returns (Str code))),
      upstream = (\<lambda>apiBase apiToken options. Inl TypeError)\<rparr>"








section \<open>Properties of the cache\<close>

lemma Map_delete_length: "length (Map_delete mp key) \<le> length mp"
  by (simp add: Map_delete_def)

lemma Map_delete_first: "length (Map_delete (e # mp) (fst e)) \<le> length mp"
  by (simp add: Map_delete_def)

lemma Map_delete_keys: "map fst (Map_delete mp key) = removeAll key (map fst mp)"
  by (induction mp) (auto simp: Map_delete_def)

lemma Map_delete_distinct_hd:
  "distinct (map fst (e # mp)) \<Longrightarrow> Map_delete (e # mp) (fst e) = mp"
  by (auto simp: Map_delete_def filter_id_conv rev_image_eqI)

lemma evict_partial: "evict m mp = Some r \<Longrightarrow> length r < m \<and> set r \<subseteq> set mp"
proof (induction rule: evict.raw_induct[rotated 1, consumes 1])
  case (1 evict' m mp r)
  then show ?case
    by (fastforce simp: Map_size_def Map_first_key_def Map_delete_def split: if_splits option.splits list.splits)
qed

lemma evict_total:
  "1 \<le> m \<Longrightarrow> \<exists>r. evict m mp = Some r"
proof (induction "length mp" arbitrary: mp rule: less_induct)
  case less
  show ?case
  proof (cases "length mp \<ge> m")
    case False
    then show ?thesis by (subst evict.simps) (simp add: Map_size_def)
  next
    case True
    with less.prems obtain e mp' where mp: "mp = e # mp'" by (cases mp) auto
    have "length (Map_delete mp (fst e)) < length mp"
      using Map_delete_first [of e mp'] by (simp add: mp)
    from less.hyps [OF this less.prems] obtain r where "evict m (Map_delete mp (fst e)) = Some r" ..
    with True show ?thesis
      by (subst evict.simps) (simp add: Map_size_def Map_first_key_def mp)
  qed
qed

lemma evict_distinct:
  "1 \<le> m \<Longrightarrow> distinct (map fst mp) \<Longrightarrow> evict m mp = Some (drop (Suc (length mp) - m) mp)"
proof (induction mp)
  case Nil
  then show ?case by (subst evict.simps) (simp add: Map_size_def)
next
  case (Cons e mp)
  show ?case
  proof (cases "length (e # mp) \<ge> m")
    case False
    then show ?thesis by (subst evict.simps) (simp add: Map_size_def)
  next
    case True
    have d: "Map_delete (e # mp) (fst e) = mp"
      using Cons.prems(2) by (rule Map_delete_distinct_hd)
    have "evict m (e # mp) = evict m mp"
      using True by (subst evict.simps) (simp add: Map_size_def Map_first_key_def d)
    also have "\<dots> = Some (drop (Suc (length mp) - m) mp)"
      using Cons by simp
    also have "drop (Suc (length mp) - m) mp = drop (Suc (length (e # mp)) - m) (e # mp)"
      using True by (simp add: Suc_diff_le)
    finally show ?thesis .
  qed
qed


lemma Map_delete_not_has: "\<not> Map_has (Map_delete mp key) key"
  by (auto simp: Map_has_def Map_delete_def)

lemma Map_delete_absent: "\<not> Map_has mp key \<Longrightarrow> Map_delete mp key = mp"
  by (auto simp: Map_has_def Map_delete_def filter_id_conv)

lemma Map_has_get: "Map_has mp key \<longleftrightarrow> Map_get mp key \<noteq> None"
  by (simp add: Map_has_def Map_get_def map_of_eq_None_iff)

lemma WorkerCache_get_hit:
  "Map_get (cache c) key = Some v \<Longrightarrow>
   WorkerCache_get c key = (Some v, c\<lparr>cache := Map_delete (cache c) key @ [(key, v)]\<rparr>)"
  by (simp add: WorkerCache_get_def Map_set_def Map_delete_not_has)

lemma WorkerCache_get_miss:
  "Map_get (cache c) key = None \<Longrightarrow> WorkerCache_get c key = (None, c)"
  by (simp add: WorkerCache_get_def)

lemma WorkerCache_set_eq:
  "WorkerCache_set c key v =
     (case evict (maxSize c) (Map_delete (cache c) key) of
        None \<Rightarrow> None
      | Some mp \<Rightarrow> Some (c\<lparr>cache := mp @ [(key, v)]\<rparr>))"
proof -
  have a: "(if Map_has (cache c) key then Map_delete (cache c) key else cache c) = Map_delete (cache c) key"
    by (simp add: Map_delete_absent)
  have b: "evict (maxSize c) (Map_delete (cache c) key) = Some mp \<Longrightarrow> \<not> Map_has mp key" for mp
    using evict_partial [of "maxSize c" "Map_delete (cache c) key" mp] Map_delete_not_has [of "cache c" key]
    by (auto simp: Map_has_def)
  show ?thesis
    unfolding WorkerCache_set_def a
    by (auto simp: Map_set_def b split: option.splits)
qed

lemma WorkerCache_set_distinct:
  assumes "1 \<le> maxSize c" and "distinct (map fst (cache c))"
  shows "WorkerCache_set c key v =
     Some (c\<lparr>cache := drop (Suc (length (Map_delete (cache c) key)) - maxSize c) (Map_delete (cache c) key) @ [(key, v)]\<rparr>)"
proof -
  have "distinct (map fst (Map_delete (cache c) key))"
    using assms(2) by (simp add: Map_delete_keys distinct_removeAll)
  from evict_distinct [OF assms(1) this] show ?thesis
    by (simp add: WorkerCache_set_eq)
qed

lemma lru_inv_append:
  assumes "distinct ks" and "sorted_wrt (\<lambda>a b. s a < s b) ks" and "\<forall>k \<in> set ks. s k < t" and "key \<notin> set ks"
  shows "distinct (ks @ [key]) \<and> sorted_wrt (\<lambda>a b. (s(key := t)) a < (s(key := t)) b) (ks @ [key]) \<and>
         (\<forall>k \<in> set (ks @ [key]). (s(key := t)) k < Suc t)"
proof -
  have eq: "(s(key := t)) k = s k" if "k \<in> set ks" for k
    using that assms(4) by auto
  have "sorted_wrt (\<lambda>a b. (s(key := t)) a < (s(key := t)) b) ks"
    by (rule sorted_wrt_mono_rel [OF _ assms(2)]) (simp only: eq)
  moreover have "\<forall>k \<in> set ks. (s(key := t)) k < (s(key := t)) key"
    using assms(3) eq by simp
  moreover have "\<forall>k \<in> set (ks @ [key]). (s(key := t)) k < Suc t"
    using assms(3) by (auto simp: less_Suc_eq)
  ultimately show ?thesis
    using assms(1,4) by (simp add: sorted_wrt_append)
qed

lemma lru_inv_get:
  assumes "lru_inv c t s"
  shows "lru_inv (snd (WorkerCache_get c key)) (Suc t)
           (if fst (WorkerCache_get c key) = None then s else s(key := t))"
proof (cases "Map_get (cache c) key")
  case None
  with assms show ?thesis
    by (auto simp: WorkerCache_get_miss lru_inv_def less_Suc_eq)
next
  case (Some v)
  let ?ks = "map fst (Map_delete (cache c) key)"
  have ks: "?ks = removeAll key (map fst (cache c))" by (rule Map_delete_keys)
  have 1: "distinct ?ks" using assms by (simp add: ks lru_inv_def distinct_removeAll)
  have 2: "sorted_wrt (\<lambda>a b. s a < s b) ?ks"
    using assms unfolding ks lru_inv_def removeAll_filter_not_eq by (simp add: sorted_wrt_filter)
  have 3: "\<forall>k \<in> set ?ks. s k < t" using assms by (auto simp: ks lru_inv_def)
  have 4: "key \<notin> set ?ks" by (simp add: ks)
  have 5: "length (Map_delete (cache c) key) < length (cache c)"
  proof -
    from Some have "key \<in> set (map fst (cache c))"
      by (metis Map_get_def map_of_eq_None_iff option.distinct(1) set_map)
    then show ?thesis
      unfolding Map_delete_def by (auto intro!: length_filter_less)
  qed
  from lru_inv_append [OF 1 2 3 4] 5 assms show ?thesis
    by (simp add: WorkerCache_get_hit [OF Some] lru_inv_def)
qed

lemma lru_inv_set:
  assumes "lru_inv c t s" and "1 \<le> maxSize c"
  shows "\<exists>c'. WorkerCache_set c key v = Some c' \<and> lru_inv c' (Suc t) (s(key := t)) \<and> maxSize c' = maxSize c"
proof -
  let ?mp = "Map_delete (cache c) key"
  let ?n = "Suc (length ?mp) - maxSize c"
  let ?ks = "map fst (drop ?n ?mp)"
  have d: "distinct (map fst (cache c))" using assms(1) by (simp add: lru_inv_def)
  have ks: "?ks = drop ?n (removeAll key (map fst (cache c)))"
    by (simp add: Map_delete_keys [symmetric] drop_map)
  have sub: "set ?ks \<subseteq> set (map fst (cache c)) - {key}"
    unfolding ks using set_drop_subset [of ?n "removeAll key (map fst (cache c))"] by auto
  have 1: "distinct ?ks" unfolding ks using d by (simp add: distinct_removeAll)
  have 2: "sorted_wrt (\<lambda>a b. s a < s b) ?ks"
    using assms(1) unfolding ks lru_inv_def removeAll_filter_not_eq
    by (simp add: sorted_wrt_filter)
  have 3: "\<forall>k \<in> set ?ks. s k < t"
    using assms(1) sub unfolding lru_inv_def by blast
  have 4: "key \<notin> set ?ks" using sub by blast
  have 5: "Suc (length (drop ?n ?mp)) \<le> maxSize c" using assms(2) by auto
  from lru_inv_append [OF 1 2 3 4] 5 show ?thesis
    by (simp add: WorkerCache_set_distinct [OF assms(2) d] lru_inv_def)
qed

lemma lru_inv_run:
  assumes "lru_inv c t s" and "1 \<le> maxSize c"
  shows "\<exists>c' s'. run_ops c xs = Some c' \<and> recency c xs t s = Some s' \<and>
           lru_inv c' (t + length xs) s' \<and> maxSize c' = maxSize c"
  using assms
proof (induction xs arbitrary: c t s)
  case Nil
  then show ?case by simp
next
  case (Cons x xs)
  show ?case
  proof (cases x)
    case (Get key)
    have m: "maxSize (snd (WorkerCache_get c key)) = maxSize c"
      by (simp add: WorkerCache_get_def split: option.splits)
    from Cons.IH [OF lru_inv_get [OF Cons.prems(1), of key]] Cons.prems(2) m
    show ?thesis by (simp add: Get)
  next
    case (Set key v)
    from lru_inv_set [OF Cons.prems, of key v] obtain c' where
      c': "WorkerCache_set c key v = Some c'" "lru_inv c' (Suc t) (s(key := t))" "maxSize c' = maxSize c"
      by blast
    have "1 \<le> maxSize c'" using Cons.prems(2) c'(3) by simp
    from Cons.IH [OF c'(2) this] obtain c'' s' where
      "run_ops c' xs = Some c''" "recency c' xs (Suc t) (s(key := t)) = Some s'"
      "lru_inv c'' (Suc t + length xs) s'" "maxSize c'' = maxSize c'"
      by blast
    then show ?thesis using c'(1,3) by (simp add: Set)
  qed
qed

lemma lru_inv_new: "lru_inv (WorkerCache_new m) 1 (\<lambda>_. 0)"
  by (simp add: lru_inv_def WorkerCache_new_def)


lemma evict_zero: "evict 0 mp = None"
  by (cases "evict 0 mp") (auto dest: evict_partial)

lemma bound_step:
  "apply_op c x = Some c' \<Longrightarrow> length (cache c) \<le> maxSize c \<Longrightarrow>
   length (cache c') \<le> maxSize c' \<and> maxSize c' = maxSize c"
proof (cases x)
  case (Get key)
  assume a: "apply_op c x = Some c'" and b: "length (cache c) \<le> maxSize c"
  have "length (Map_delete (cache c) key) < length (cache c)" if "Map_get (cache c) key = Some v" for v
  proof -
    from that have "key \<in> set (map fst (cache c))"
      by (metis Map_get_def map_of_eq_None_iff option.distinct(1) set_map)
    then show ?thesis
      unfolding Map_delete_def by (auto intro!: length_filter_less)
  qed
  with a b show ?thesis
    by (cases "Map_get (cache c) key")
       (auto simp: Get WorkerCache_get_miss WorkerCache_get_hit)
next
  case (Set key v)
  assume a: "apply_op c x = Some c'"
  then obtain mp where "evict (maxSize c) (Map_delete (cache c) key) = Some mp"
    and "c' = c\<lparr>cache := mp @ [(key, v)]\<rparr>"
    by (auto simp: Set WorkerCache_set_eq split: option.splits)
  with evict_partial [of "maxSize c" "Map_delete (cache c) key" mp] show ?thesis
    by simp
qed

lemma bound_run:
  "run_ops c xs = Some c' \<Longrightarrow> length (cache c) \<le> maxSize c \<Longrightarrow>
   length (cache c') \<le> maxSize c' \<and> maxSize c' = maxSize c"
proof (induction xs arbitrary: c)
  case Nil
  then show ?case by simp
next
  case (Cons x xs)
  from Cons.prems(1) obtain c1 where c1: "apply_op c x = Some c1" "run_ops c1 xs = Some c'"
    by (auto split: option.splits)
  from bound_step [OF c1(1) Cons.prems(2)] Cons.IH [OF c1(2)] show ?case by simp
qed

subsection \<open>The hash\<close>

lemma ToInt32_range: "- (2 ^ 31) \<le> ToInt32 x \<and> ToInt32 x < 2 ^ 31"
proof -
  have "0 \<le> (x + 2 ^ 31) mod 2 ^ 32" and "(x + 2 ^ 31) mod 2 ^ 32 < (2 ^ 32 :: int)"
    by simp_all
  then show ?thesis unfolding ToInt32_def by simp
qed

lemma hash_loop_range:
  "- (2 ^ 31) \<le> hash \<and> hash < 2 ^ 31 \<Longrightarrow>
   - (2 ^ 31) \<le> hash_loop hash str \<and> hash_loop hash str < 2 ^ 31"
proof (induction str arbitrary: hash)
  case Nil
  then show ?case by simp
next
  case (Cons char str)
  show ?case
    unfolding hash_loop.simps by (rule Cons.IH) (rule ToInt32_range)
qed

lemma simpleHash_int32:
  "\<exists>n. - (2 ^ 31) \<le> n \<and> n < 2 ^ 31 \<and> simpleHash str = toString36 n"
  using hash_loop_range [of 0 str] by (auto simp: simpleHash_def)

lemma simpleHash_range: "range simpleHash \<subseteq> toString36 ` {- (2 ^ 31) ..< 2 ^ 31}"
  using simpleHash_int32 by fastforce

lemma simpleHash_card: "finite (range simpleHash) \<and> card (range simpleHash) \<le> 2 ^ 32"
proof -
  let ?S = "{- (2 ^ 31) ..< 2 ^ 31 :: int}"
  have f: "finite (toString36 ` ?S)" by simp
  have "card (range simpleHash) \<le> card (toString36 ` ?S)"
    by (rule card_mono [OF f simpleHash_range])
  also have "\<dots> \<le> card ?S" by (rule card_image_le) simp
  also have "\<dots> = 2 ^ 32" by simp
  finally show ?thesis using finite_subset [OF simpleHash_range f] by simp
qed

lemma collide: "simpleHash (js ''Aa'') = js ''1mo'' \<and> simpleHash (js ''BB'') = js ''1mo''"
  by (simp add: simpleHash_def toString36_def js_def ToInt32_def radix36.simps digit36_def)

lemma differ: "js ''Aa'' \<noteq> js ''BB''"
  by (simp add: js_def)

lemmas cache_defs = WorkerCache_new_def WorkerCache_set_def WorkerCache_get_def evict.simps
        Map_has_def Map_get_def Map_delete_def Map_set_def Map_size_def Map_first_key_def js_def


subsection \<open>Keys\<close>

lemma Map_get_delete: "Map_get (Map_delete mp k0) k = (if k = k0 then None else Map_get mp k)"
  by (induction mp) (auto simp: Map_get_def Map_delete_def)

lemma evict_get:
  "evict m mp = Some r \<Longrightarrow> Map_get r k = Some w \<longrightarrow> Map_get mp k = Some w"
proof (induction rule: evict.raw_induct[rotated 1, consumes 1])
  case (1 evict' m mp r)
  show ?case
  proof (cases "m \<le> Map_size mp")
    case False
    with 1(2) show ?thesis by simp
  next
    case True
    show ?thesis
    proof (cases "Map_first_key mp")
      case None
      with True 1(2) have "evict' m mp = Some r" by simp
      from 1(1) [OF this] show ?thesis .
    next
      case (Some k0)
      with True 1(2) have "evict' m (Map_delete mp k0) = Some r" by simp
      from 1(1) [OF this] show ?thesis
        by (simp add: Map_get_delete split: if_splits)
    qed
  qed
qed

lemma radix36_chars: "set (radix36 n) \<subseteq> set ''0123456789abcdefghijklmnopqrstuvwxyz''"
proof (induction n rule: radix36.induct)
  case (1 n)
  have d: "digit36 k \<in> set ''0123456789abcdefghijklmnopqrstuvwxyz''" if "k < 36" for k
    unfolding digit36_def by (rule nth_mem) (use that in simp)
  show ?case
  proof (cases "n < 36")
    case True
    then show ?thesis by (subst radix36.simps) (use d [of n] in simp)
  next
    case False
    with 1 have "set (radix36 (n div 36)) \<subseteq> set ''0123456789abcdefghijklmnopqrstuvwxyz''"
      by simp
    moreover have "digit36 (n mod 36) \<in> set ''0123456789abcdefghijklmnopqrstuvwxyz''"
      by (rule d) simp
    ultimately show ?thesis using False by (subst radix36.simps) simp
  qed
qed

lemma js_unit_inj: "word_of_nat (of_char c) = (word_of_nat (of_char d) :: 16 word) \<Longrightarrow> c = d"
proof -
  assume a: "word_of_nat (of_char c) = (word_of_nat (of_char d) :: 16 word)"
  have lt: "(of_char x :: nat) < 2 ^ 16" for x
  proof -
    have "(of_char x :: nat) mod 256 < 256" by simp
    then have "(of_char x :: nat) < 256" by (simp only: of_char_mod_256)
    also have "(256 :: nat) < 2 ^ 16" by simp
    finally show ?thesis .
  qed
  have "unat (word_of_nat (of_char x) :: 16 word) = of_char x" for x
    using lt [of x] by (simp add: unat_of_nat)
  with a have "(of_char c :: nat) = of_char d" by metis
  then show "c = d" by simp
qed

lemma js_colon: "58 \<in> set (js s) \<Longrightarrow> CHR '':'' \<in> set s"
proof -
  assume "58 \<in> set (js s)"
  then obtain c where c: "c \<in> set s" "word_of_nat (of_char c) = (58 :: 16 word)"
    by (auto simp: js_def)
  have "word_of_nat (of_char CHR '':'') = (58 :: 16 word)" by simp
  with c(2) have "c = CHR '':''" using js_unit_inj by metis
  with c(1) show ?thesis by simp
qed

lemma simpleHash_no_colon: "58 \<notin> set (simpleHash code)"
proof
  assume "58 \<in> set (simpleHash code)"
  then have "CHR '':'' \<in> set (if hash_loop 0 code < 0 then CHR ''-'' # radix36 (nat (- hash_loop 0 code))
                               else radix36 (nat (hash_loop 0 code)))"
    unfolding simpleHash_def toString36_def by (rule js_colon)
  then have "CHR '':'' \<in> set ''0123456789abcdefghijklmnopqrstuvwxyz''"
    using radix36_chars by (auto split: if_splits)
  then show False by simp
qed

lemma split_at_last_colon:
  assumes "a1 @ [58 :: 16 word] @ h1 = a2 @ [58] @ h2" and "58 \<notin> set h1" and "58 \<notin> set h2"
  shows "a1 = a2 \<and> h1 = h2"
proof -
  have "rev h1 @ 58 # rev a1 = rev h2 @ 58 # rev a2"
    using arg_cong [OF assms(1), of rev] by simp
  then have "takeWhile (\<lambda>c. c \<noteq> 58) (rev h1 @ 58 # rev a1) = takeWhile (\<lambda>c. c \<noteq> 58) (rev h2 @ 58 # rev a2)"
    by (rule arg_cong)
  moreover have "takeWhile (\<lambda>c. c \<noteq> 58) (rev h @ 58 # t) = rev h"
    if "58 \<notin> set h" for h t :: "16 word list"
  proof -
    have "\<forall>x \<in> set (rev h). x \<noteq> 58" using that by auto
    then have "takeWhile (\<lambda>c. c \<noteq> 58) (rev h) = rev h"
      by (rule takeWhile_eq_all_conv [THEN iffD2])
    then show ?thesis by (simp add: takeWhile_tail)
  qed
  ultimately have "rev h1 = rev h2"
    using assms(2,3) by metis
  then have "h1 = h2" by simp
  with assms(1) show ?thesis by simp
qed

lemma apiCacheKey_eq:
  "apiCacheKey a1 (simpleHash c1) = apiCacheKey a2 (simpleHash c2) \<longleftrightarrow>
   a1 = a2 \<and> simpleHash c1 = simpleHash c2"
proof
  assume "apiCacheKey a1 (simpleHash c1) = apiCacheKey a2 (simpleHash c2)"
  then have "a1 @ [58] @ simpleHash c1 = a2 @ [58] @ simpleHash c2"
    by (simp add: apiCacheKey_def js_def)
  from split_at_last_colon [OF this simpleHash_no_colon simpleHash_no_colon]
  show "a1 = a2 \<and> simpleHash c1 = simpleHash c2" .
next
  assume "a1 = a2 \<and> simpleHash c1 = simpleHash c2"
  then show "apiCacheKey a1 (simpleHash c1) = apiCacheKey a2 (simpleHash c2)" by simp
qed

lemma get_hit_last:
  "Map_get (cache wc) key = Some w \<Longrightarrow> fst (WorkerCache_get wc key) = Some w"
  by (simp add: WorkerCache_get_hit)

lemma set_after_miss:
  assumes "1 \<le> maxSize wc"
  shows "\<exists>mp. WorkerCache_set wc key w = Some (wc\<lparr>cache := mp @ [(key, w)]\<rparr>) \<and>
              \<not> Map_has mp key \<and>
              (\<forall>k v. Map_get mp k = Some v \<longrightarrow> Map_get (cache wc) k = Some v)"
proof -
  from evict_total [OF assms] obtain mp where mp: "evict (maxSize wc) (Map_delete (cache wc) key) = Some mp"
    by blast
  have "set mp \<subseteq> set (Map_delete (cache wc) key)"
    using evict_partial [OF mp] by simp
  then have no: "\<not> Map_has mp key"
    using Map_delete_not_has [of "cache wc" key] by (auto simp: Map_has_def)
  have "Map_get mp k = Some v \<longrightarrow> Map_get (cache wc) k = Some v" for k v
    using evict_get [OF mp, of k v] by (auto simp: Map_get_delete split: if_splits)
  with no show ?thesis
    by (auto simp: WorkerCache_set_eq mp)
qed

lemma get_last_again:
  assumes "\<not> Map_has mp key"
  shows "WorkerCache_get (wc\<lparr>cache := mp @ [(key, w)]\<rparr>) key = (Some w, wc\<lparr>cache := mp @ [(key, w)]\<rparr>)"
proof -
  have "map_of mp key = None"
    using assms by (simp add: Map_has_def map_of_eq_None_iff)
  then have g: "Map_get (cache (wc\<lparr>cache := mp @ [(key, w)]\<rparr>)) key = Some w"
    by (simp add: Map_get_def map_add_def)
  have del: "Map_delete (mp @ [(key, w)]) key = mp"
    using Map_delete_absent [OF assms] by (simp add: Map_delete_def)
  show ?thesis
    by (simp add: WorkerCache_get_hit [OF g] del)
qed

lemma get_other_after_set:
  assumes "\<not> Map_has mp key" and "k \<noteq> key"
  shows "Map_get (mp @ [(key, w)]) k = Map_get mp k"
  using assms by (auto simp: Map_get_def map_add_def split: option.splits)

subsection \<open>The executors\<close>

lemmas exec_defs = executeCode_def executeSearch_def apiCacheKey_def invoke_def
  worker_definition_def evaluate_try_def evaluate_body_def codeExecutor_workerCache_def
  searchExecutor_workerCache_def
  simpleHash_def toString36_def ToInt32_def radix36.simps digit36_def

lemma executeCode_hit:
  assumes "Map_get (cache wc) (apiCacheKey accountId (simpleHash code)) = Some w"
  shows "executeCode e h wc code accountId apiToken =
           Some (invoke h w (Str apiToken),
                 snd (WorkerCache_get wc (apiCacheKey accountId (simpleHash code))))"
  by (simp add: executeCode_def Let_def WorkerCache_get_hit [OF assms])

lemma executeCode_miss:
  assumes "Map_get (cache wc) (apiCacheKey accountId (simpleHash code)) = None"
  shows "executeCode e h wc code accountId apiToken =
           (case LOADER_get e (js ''cloudflare-api-'' @ apiCacheKey accountId (simpleHash code))
                   (worker_definition (CodeExecutor_js (CLOUDFLARE_API_BASE e) accountId code)) of
              Inl f \<Rightarrow> Some (Inl f, wc)
            | Inr w \<Rightarrow>
                (case WorkerCache_set wc (apiCacheKey accountId (simpleHash code)) w of
                   None \<Rightarrow> None
                 | Some wc' \<Rightarrow> Some (invoke h w (Str apiToken), wc')))"
  by (simp add: executeCode_def Let_def WorkerCache_get_miss [OF assms])

lemma executeSearch_hit:
  assumes "Map_get (cache wc) (simpleHash code) = Some w"
  shows "executeSearch e h specJson wc code =
           Some (invoke h w Undefined, snd (WorkerCache_get wc (simpleHash code)))"
  by (simp add: executeSearch_def Let_def WorkerCache_get_hit [OF assms])

lemma executeSearch_miss:
  assumes "Map_get (cache wc) (simpleHash code) = None"
  shows "executeSearch e h specJson wc code =
           (case LOADER_get e (js ''cloudflare-search-'' @ simpleHash code)
                   (worker_definition (SearchExecutor_js specJson code)) of
              Inl f \<Rightarrow> Some (Inl f, wc)
            | Inr w \<Rightarrow>
                (case WorkerCache_set wc (simpleHash code) w of
                   None \<Rightarrow> None
                 | Some wc' \<Rightarrow> Some (invoke h w Undefined, wc')))"
  by (simp add: executeSearch_def Let_def WorkerCache_get_miss [OF assms])

lemma api_build_then_hit:
  assumes "1 \<le> maxSize wc"
    and "Map_get (cache wc) (apiCacheKey a1 (simpleHash c1)) = None"
    and "LOADER_get e (js ''cloudflare-api-'' @ apiCacheKey a1 (simpleHash c1))
           (worker_definition (CodeExecutor_js (CLOUDFLARE_API_BASE e) a1 c1)) = Inr w1"
  shows "\<exists>wc1. (\<forall>t. executeCode e h wc c1 a1 t = Some (invoke h w1 (Str t), wc1)) \<and>
           (\<forall>e' c2 t. simpleHash c2 = simpleHash c1 \<longrightarrow>
                executeCode e' h wc1 c2 a1 t = Some (invoke h w1 (Str t), wc1)) \<and>
           (\<forall>k w. k \<noteq> apiCacheKey a1 (simpleHash c1) \<longrightarrow> Map_get (cache wc1) k = Some w \<longrightarrow>
                Map_get (cache wc) k = Some w) \<and>
           Map_get (cache wc1) (apiCacheKey a1 (simpleHash c1)) = Some w1"
proof -
  let ?k = "apiCacheKey a1 (simpleHash c1)"
  from set_after_miss [OF assms(1), of ?k w1] obtain mp where
    mp: "WorkerCache_set wc ?k w1 = Some (wc\<lparr>cache := mp @ [(?k, w1)]\<rparr>)" "\<not> Map_has mp ?k"
        "\<And>k v. Map_get mp k = Some v \<Longrightarrow> Map_get (cache wc) k = Some v"
    by blast
  let ?wc1 = "wc\<lparr>cache := mp @ [(?k, w1)]\<rparr>"
  have 1: "executeCode e h wc c1 a1 t = Some (invoke h w1 (Str t), ?wc1)" for t
    using assms(2,3) mp(1) by (simp add: executeCode_miss)
  have g: "Map_get (cache ?wc1) ?k = Some w1"
    using get_last_again [OF mp(2), where wc = wc and w = w1]
    by (simp add: WorkerCache_get_def split: option.splits)
  have 2: "executeCode e' h ?wc1 c2 a1 t = Some (invoke h w1 (Str t), ?wc1)"
    if "simpleHash c2 = simpleHash c1" for e' c2 t
  proof -
    from that g have "Map_get (cache ?wc1) (apiCacheKey a1 (simpleHash c2)) = Some w1" by simp
    from executeCode_hit [OF this] that show ?thesis
      by (simp add: get_last_again [OF mp(2)])
  qed
  have 3: "Map_get (cache wc) k = Some w"
    if "k \<noteq> ?k" and "Map_get (cache ?wc1) k = Some w" for k w
  proof -
    from get_other_after_set [OF mp(2) that(1), where w = w1] that(2)
    have "Map_get mp k = Some w" by simp
    then show ?thesis by (rule mp(3))
  qed
  from 1 2 3 g show ?thesis by blast
qed

lemma search_build_then_hit:
  assumes "1 \<le> maxSize wc"
    and "Map_get (cache wc) (simpleHash c1) = None"
    and "LOADER_get e (js ''cloudflare-search-'' @ simpleHash c1)
           (worker_definition (SearchExecutor_js specJson c1)) = Inr w1"
  shows "\<exists>wc1. executeSearch e h specJson wc c1 = Some (invoke h w1 Undefined, wc1) \<and>
           (\<forall>e' c2. simpleHash c2 = simpleHash c1 \<longrightarrow>
                executeSearch e' h specJson wc1 c2 = Some (invoke h w1 Undefined, wc1)) \<and>
           (\<forall>k w. k \<noteq> simpleHash c1 \<longrightarrow> Map_get (cache wc1) k = Some w \<longrightarrow>
                Map_get (cache wc) k = Some w) \<and>
           Map_get (cache wc1) (simpleHash c1) = Some w1"
proof -
  let ?k = "simpleHash c1"
  from set_after_miss [OF assms(1), of ?k w1] obtain mp where
    mp: "WorkerCache_set wc ?k w1 = Some (wc\<lparr>cache := mp @ [(?k, w1)]\<rparr>)" "\<not> Map_has mp ?k"
        "\<And>k v. Map_get mp k = Some v \<Longrightarrow> Map_get (cache wc) k = Some v"
    by blast
  let ?wc1 = "wc\<lparr>cache := mp @ [(?k, w1)]\<rparr>"
  have 1: "executeSearch e h specJson wc c1 = Some (invoke h w1 Undefined, ?wc1)"
    using assms(2,3) mp(1) by (simp add: executeSearch_miss)
  have g: "Map_get (cache ?wc1) ?k = Some w1"
    using get_last_again [OF mp(2), where wc = wc and w = w1]
    by (simp add: WorkerCache_get_def split: option.splits)
  have 2: "executeSearch e' h specJson ?wc1 c2 = Some (invoke h w1 Undefined, ?wc1)"
    if "simpleHash c2 = simpleHash c1" for e' c2
  proof -
    from that g have "Map_get (cache ?wc1) (simpleHash c2) = Some w1" by simp
    from executeSearch_hit [OF this] that show ?thesis
      by (simp add: get_last_again [OF mp(2)])
  qed
  have 3: "Map_get (cache wc) k = Some w"
    if "k \<noteq> ?k" and "Map_get (cache ?wc1) k = Some w" for k w
  proof -
    from get_other_after_set [OF mp(2) that(1), where w = w1] that(2)
    have "Map_get mp k = Some w" by simp
    then show ?thesis by (rule mp(3))
  qed
  from 1 2 3 g show ?thesis by blast
qed

lemma hash_Aa_BB: "simpleHash (js ''BB'') = simpleHash (js ''Aa'')"
  using collide by simp


subsection \<open>Responses and truncation\<close>

lemma invoke_broken: "startup h w = Some f \<Longrightarrow> invoke h w arg = Inl f"
  by (cases w) (simp add: invoke_def)



lemma decimal_length: "n < 10 ^ Suc k \<Longrightarrow> length (decimal n) \<le> Suc k"
proof (induction k arbitrary: n)
  case 0
  then show ?case by (subst decimal.simps) simp
next
  case (Suc k)
  show ?case
  proof (cases "n < 10")
    case True
    then show ?thesis by (subst decimal.simps) simp
  next
    case False
    from Suc.prems have "n div 10 < 10 ^ Suc k" by simp
    from Suc.IH [OF this] False show ?thesis by (subst decimal.simps) simp
  qed
qed

lemma size_indicator_length: "n < 2 ^ 53 \<Longrightarrow> length (size_indicator n) \<le> 60"
proof -
  assume "n < 2 ^ 53"
  also have "(2 :: nat) ^ 53 < 10 ^ Suc 15" by simp
  finally have "length (decimal n) \<le> Suc 15" by (rule decimal_length)
  then show ?thesis by (simp add: size_indicator_def js_def)
qed

section \<open>The claims\<close>

text \<open>
  Claim C1, as stated: two requests with different code never resolve to the same
  cached sandbox, because a hit compares the source kept in the sandbox with the
  requested code. The executors keep no source and compare nothing: after a request
  for the code \<open>Aa\<close>, a request for \<open>BB\<close> under the same account hits the entry of
  \<open>Aa\<close> and gets the value of \<open>Aa\<close> (each code here returns its own text).
\<close>

theorem collision_shares_sandbox:
  "js ''Aa'' \<noteq> js ''BB'' \<and>
   executeCode example_env echo_host codeExecutor_workerCache (js ''Aa'') (js ''acct'') (js ''token'')
     = Some (Inr (Str (js ''Aa'')), cache_after_Aa) \<and>
   executeCode example_env echo_host cache_after_Aa (js ''BB'') (js ''acct'') (js ''token'')
     = Some (Inr (Str (js ''Aa'')), cache_after_Aa)"
  by (simp add: exec_defs cache_defs Let_def example_env_def echo_host_def cache_after_Aa_def)

text \<open>
  Claim C1, amended. A request that misses and builds a sandbox leaves it in the cache
  under its derived key. A later request is served by that sandbox, with no look at
  its source, exactly when its derived key is the same: same account and same
  \<open>simpleHash\<close> of the code (for the search executor: same \<open>simpleHash\<close>). A later
  request with another key finds only what the cache held before under that key.
\<close>

theorem sandbox_shared_iff_key:
  assumes "1 \<le> maxSize wc"
  shows
   "(Map_get (cache wc) (apiCacheKey a1 (simpleHash c1)) = None \<and>
     LOADER_get e (js ''cloudflare-api-'' @ apiCacheKey a1 (simpleHash c1))
       (worker_definition (CodeExecutor_js (CLOUDFLARE_API_BASE e) a1 c1)) = Inr w1
     \<longrightarrow> (\<exists>wc1. executeCode e h wc c1 a1 t1 = Some (invoke h w1 (Str t1), wc1) \<and>
          (\<forall>c2 a2 t2.
             (a2 = a1 \<and> simpleHash c2 = simpleHash c1 \<longrightarrow>
                executeCode e h wc1 c2 a2 t2 = Some (invoke h w1 (Str t2), wc1)) \<and>
             (a2 \<noteq> a1 \<or> simpleHash c2 \<noteq> simpleHash c1 \<longrightarrow>
                (\<forall>w. Map_get (cache wc1) (apiCacheKey a2 (simpleHash c2)) = Some w \<longrightarrow>
                     Map_get (cache wc) (apiCacheKey a2 (simpleHash c2)) = Some w))))) \<and>
    (Map_get (cache wc) (simpleHash s1) = None \<and>
     LOADER_get e (js ''cloudflare-search-'' @ simpleHash s1)
       (worker_definition (SearchExecutor_js specJson s1)) = Inr ws
     \<longrightarrow> (\<exists>wc1. executeSearch e h specJson wc s1 = Some (invoke h ws Undefined, wc1) \<and>
          (\<forall>s2.
             (simpleHash s2 = simpleHash s1 \<longrightarrow>
                executeSearch e h specJson wc1 s2 = Some (invoke h ws Undefined, wc1)) \<and>
             (simpleHash s2 \<noteq> simpleHash s1 \<longrightarrow>
                (\<forall>w. Map_get (cache wc1) (simpleHash s2) = Some w \<longrightarrow>
                     Map_get (cache wc) (simpleHash s2) = Some w)))))"
proof (intro conjI impI)
  assume a: "Map_get (cache wc) (apiCacheKey a1 (simpleHash c1)) = None \<and>
     LOADER_get e (js ''cloudflare-api-'' @ apiCacheKey a1 (simpleHash c1))
       (worker_definition (CodeExecutor_js (CLOUDFLARE_API_BASE e) a1 c1)) = Inr w1"
  from api_build_then_hit [OF assms conjunct1 [OF a] conjunct2 [OF a], of h]
  obtain wc1 where
    1: "\<And>t. executeCode e h wc c1 a1 t = Some (invoke h w1 (Str t), wc1)"
    and 2: "\<And>e' c2 t. simpleHash c2 = simpleHash c1 \<Longrightarrow>
                executeCode e' h wc1 c2 a1 t = Some (invoke h w1 (Str t), wc1)"
    and 3: "\<And>k w. k \<noteq> apiCacheKey a1 (simpleHash c1) \<Longrightarrow> Map_get (cache wc1) k = Some w \<Longrightarrow>
                Map_get (cache wc) k = Some w"
    by blast
  have "Map_get (cache wc) (apiCacheKey a2 (simpleHash c2)) = Some w"
    if "a2 \<noteq> a1 \<or> simpleHash c2 \<noteq> simpleHash c1"
      and "Map_get (cache wc1) (apiCacheKey a2 (simpleHash c2)) = Some w" for a2 c2 w
  proof -
    from that(1) have "apiCacheKey a2 (simpleHash c2) \<noteq> apiCacheKey a1 (simpleHash c1)"
      by (simp add: apiCacheKey_eq)
    from 3 [OF this that(2)] show ?thesis .
  qed
  with 1 2 show "\<exists>wc1. executeCode e h wc c1 a1 t1 = Some (invoke h w1 (Str t1), wc1) \<and>
          (\<forall>c2 a2 t2.
             (a2 = a1 \<and> simpleHash c2 = simpleHash c1 \<longrightarrow>
                executeCode e h wc1 c2 a2 t2 = Some (invoke h w1 (Str t2), wc1)) \<and>
             (a2 \<noteq> a1 \<or> simpleHash c2 \<noteq> simpleHash c1 \<longrightarrow>
                (\<forall>w. Map_get (cache wc1) (apiCacheKey a2 (simpleHash c2)) = Some w \<longrightarrow>
                     Map_get (cache wc) (apiCacheKey a2 (simpleHash c2)) = Some w)))"
    by blast
next
  assume a: "Map_get (cache wc) (simpleHash s1) = None \<and>
     LOADER_get e (js ''cloudflare-search-'' @ simpleHash s1)
       (worker_definition (SearchExecutor_js specJson s1)) = Inr ws"
  from search_build_then_hit [OF assms conjunct1 [OF a] conjunct2 [OF a], of h]
  show "\<exists>wc1. executeSearch e h specJson wc s1 = Some (invoke h ws Undefined, wc1) \<and>
          (\<forall>s2.
             (simpleHash s2 = simpleHash s1 \<longrightarrow>
                executeSearch e h specJson wc1 s2 = Some (invoke h ws Undefined, wc1)) \<and>
             (simpleHash s2 \<noteq> simpleHash s1 \<longrightarrow>
                (\<forall>w. Map_get (cache wc1) (simpleHash s2) = Some w \<longrightarrow>
                     Map_get (cache wc) (simpleHash s2) = Some w)))"
    by blast
qed

theorem sandbox_shared_iff_key_witness:
  "1 \<le> maxSize codeExecutor_workerCache \<and>
   Map_get (cache codeExecutor_workerCache) (apiCacheKey (js ''acct'') (simpleHash (js ''Aa''))) = None \<and>
   LOADER_get example_env (js ''cloudflare-api-'' @ apiCacheKey (js ''acct'') (simpleHash (js ''Aa'')))
     (worker_definition (CodeExecutor_js (CLOUDFLARE_API_BASE example_env) (js ''acct'') (js ''Aa'')))
     = Inr (WorkerStub (js ''cloudflare-api-'' @ apiCacheKey (js ''acct'') (simpleHash (js ''Aa'')))
              (worker_definition (CodeExecutor_js (CLOUDFLARE_API_BASE example_env) (js ''acct'') (js ''Aa'')))) \<and>
   Map_get (cache codeExecutor_workerCache) (simpleHash (js ''Aa'')) = None \<and>
   LOADER_get example_env (js ''cloudflare-search-'' @ simpleHash (js ''Aa''))
     (worker_definition (SearchExecutor_js (js ''{}'') (js ''Aa'')))
     = Inr (WorkerStub (js ''cloudflare-search-'' @ simpleHash (js ''Aa''))
              (worker_definition (SearchExecutor_js (js ''{}'') (js ''Aa'')))) \<and>
   (\<exists>wc1. executeCode example_env echo_host codeExecutor_workerCache (js ''Aa'') (js ''acct'') (js ''t1'')
            = Some (invoke echo_host
                      (WorkerStub (js ''cloudflare-api-'' @ apiCacheKey (js ''acct'') (simpleHash (js ''Aa'')))
                         (worker_definition (CodeExecutor_js (CLOUDFLARE_API_BASE example_env) (js ''acct'') (js ''Aa''))))
                      (Str (js ''t1'')), wc1) \<and>
          executeCode example_env echo_host wc1 (js ''BB'') (js ''acct'') (js ''t2'')
            = Some (invoke echo_host
                      (WorkerStub (js ''cloudflare-api-'' @ apiCacheKey (js ''acct'') (simpleHash (js ''Aa'')))
                         (worker_definition (CodeExecutor_js (CLOUDFLARE_API_BASE example_env) (js ''acct'') (js ''Aa''))))
                      (Str (js ''t2'')), wc1)) \<and>
   (\<exists>wc1. executeSearch example_env echo_host (js ''{}'') codeExecutor_workerCache (js ''Aa'')
            = Some (invoke echo_host
                      (WorkerStub (js ''cloudflare-search-'' @ simpleHash (js ''Aa''))
                         (worker_definition (SearchExecutor_js (js ''{}'') (js ''Aa''))))
                      Undefined, wc1) \<and>
          executeSearch example_env echo_host (js ''{}'') wc1 (js ''BB'')
            = Some (invoke echo_host
                      (WorkerStub (js ''cloudflare-search-'' @ simpleHash (js ''Aa''))
                         (worker_definition (SearchExecutor_js (js ''{}'') (js ''Aa''))))
                      Undefined, wc1))"
proof -
  let ?ka = "apiCacheKey (js ''acct'') (simpleHash (js ''Aa''))"
  let ?da = "worker_definition (CodeExecutor_js (CLOUDFLARE_API_BASE example_env) (js ''acct'') (js ''Aa''))"
  let ?wa = "WorkerStub (js ''cloudflare-api-'' @ ?ka) ?da"
  let ?ds = "worker_definition (SearchExecutor_js (js ''{}'') (js ''Aa''))"
  let ?ws = "WorkerStub (js ''cloudflare-search-'' @ simpleHash (js ''Aa'')) ?ds"
  have 1: "1 \<le> maxSize codeExecutor_workerCache"
    by (simp add: codeExecutor_workerCache_def WorkerCache_new_def)
  have 2: "Map_get (cache codeExecutor_workerCache) k = None" for k
    by (simp add: codeExecutor_workerCache_def WorkerCache_new_def Map_get_def)
  have 3: "LOADER_get example_env i d = Inr (WorkerStub i d)" for i d
    by (simp add: example_env_def)
  note T = sandbox_shared_iff_key [OF 1, where ?a1.0 = "js ''acct''" and ?c1.0 = "js ''Aa''"
      and e = example_env and ?w1.0 = ?wa and h = echo_host and ?t1.0 = "js ''t1''"
      and ?s1.0 = "js ''Aa''" and specJson = "js ''{}''" and ws = ?ws]
  from T [THEN conjunct1, rule_format, OF conjI [OF 2 3]] obtain wc1 where
    a1: "executeCode example_env echo_host codeExecutor_workerCache (js ''Aa'') (js ''acct'') (js ''t1'')
           = Some (invoke echo_host ?wa (Str (js ''t1'')), wc1)"
    and a2: "\<And>c2 a2 t2. a2 = js ''acct'' \<and> simpleHash c2 = simpleHash (js ''Aa'') \<longrightarrow>
           executeCode example_env echo_host wc1 c2 a2 t2 = Some (invoke echo_host ?wa (Str t2), wc1)"
    by blast
  from a2 [of "js ''acct''" "js ''BB''" "js ''t2''"] hash_Aa_BB
  have a3: "executeCode example_env echo_host wc1 (js ''BB'') (js ''acct'') (js ''t2'')
           = Some (invoke echo_host ?wa (Str (js ''t2'')), wc1)"
    by simp
  from T [THEN conjunct2, rule_format, OF conjI [OF 2 3]] obtain wc2 where
    s1: "executeSearch example_env echo_host (js ''{}'') codeExecutor_workerCache (js ''Aa'')
           = Some (invoke echo_host ?ws Undefined, wc2)"
    and s2: "\<And>s2. simpleHash s2 = simpleHash (js ''Aa'') \<longrightarrow>
           executeSearch example_env echo_host (js ''{}'') wc2 s2 = Some (invoke echo_host ?ws Undefined, wc2)"
    by blast
  from s2 [of "js ''BB''"] hash_Aa_BB
  have s3: "executeSearch example_env echo_host (js ''{}'') wc2 (js ''BB'')
           = Some (invoke echo_host ?ws Undefined, wc2)"
    by simp
  from a1 a3 have A: "\<exists>wc1. executeCode example_env echo_host codeExecutor_workerCache (js ''Aa'') (js ''acct'') (js ''t1'')
            = Some (invoke echo_host ?wa (Str (js ''t1'')), wc1) \<and>
          executeCode example_env echo_host wc1 (js ''BB'') (js ''acct'') (js ''t2'')
            = Some (invoke echo_host ?wa (Str (js ''t2'')), wc1)"
    by blast
  from s1 s3 have S: "\<exists>wc1. executeSearch example_env echo_host (js ''{}'') codeExecutor_workerCache (js ''Aa'')
            = Some (invoke echo_host ?ws Undefined, wc1) \<and>
          executeSearch example_env echo_host (js ''{}'') wc1 (js ''BB'')
            = Some (invoke echo_host ?ws Undefined, wc1)"
    by blast
  show ?thesis
    apply (intro conjI)
          apply (rule 1)
         apply (rule 2)
        apply (rule 3)
       apply (rule 2)
      apply (rule 3)
     apply (rule A)
    apply (rule S)
    done
qed




text \<open>
  Claim C3. A cache built with maximum size \<open>m\<close> never holds more than \<open>m\<close> entries:
  after every prefix of every sequence of \<open>get\<close> and \<open>set\<close> calls that the cache has
  come back from, the map has at most \<open>m\<close> entries. For \<open>m \<ge> 1\<close> every sequence of
  calls comes back. The cache of the API executor is built with 20, that of the search
  executor with 5.
\<close>

theorem cache_bound:
  "(1 \<le> m \<longrightarrow> (\<exists>c. run_ops (WorkerCache_new m) xs = Some c)) \<and>
   (\<forall>n c. run_ops (WorkerCache_new m) (take n xs) = Some c \<longrightarrow> Map_size (cache c) \<le> m) \<and>
   codeExecutor_workerCache = WorkerCache_new 20 \<and>
   searchExecutor_workerCache = WorkerCache_new 5"
proof (intro conjI impI allI)
  assume "1 \<le> m"
  then have "1 \<le> maxSize (WorkerCache_new m :: 'a WorkerCache)" by (simp add: WorkerCache_new_def)
  from lru_inv_run [OF lru_inv_new this, of xs] show "\<exists>c. run_ops (WorkerCache_new m) xs = Some c"
    by blast
next
  fix n c
  assume "run_ops (WorkerCache_new m) (take n xs) = Some c"
  from bound_run [OF this] show "Map_size (cache c) \<le> m"
    by (simp add: WorkerCache_new_def Map_size_def)
next
  show "codeExecutor_workerCache = WorkerCache_new 20"
    by (simp add: codeExecutor_workerCache_def)
next
  show "searchExecutor_workerCache = WorkerCache_new 5"
    by (simp add: searchExecutor_workerCache_def)
qed

theorem cache_bound_witness:
  "(1::nat) \<le> 2 \<and>
   run_ops (WorkerCache_new 2) (take 4 [Set (js ''a'') (1::nat), Set (js ''b'') 2, Get (js ''a''), Set (js ''c'') 3, Get (js ''b'')])
     = Some \<lparr>cache = [(js ''a'', 1), (js ''c'', 3)], maxSize = 2\<rparr> \<and>
   Map_size (cache \<lparr>cache = [(js ''a'', 1::nat), (js ''c'', 3)], maxSize = 2\<rparr>) \<le> 2"
proof -
  have r: "run_ops (WorkerCache_new 2) (take 4 [Set (js ''a'') (1::nat), Set (js ''b'') 2, Get (js ''a''), Set (js ''c'') 3, Get (js ''b'')])
     = Some \<lparr>cache = [(js ''a'', 1), (js ''c'', 3)], maxSize = 2\<rparr>"
    by (simp add: cache_defs)
  from cache_bound [of 2 "[Set (js ''a'') (1::nat), Set (js ''b'') 2, Get (js ''a''), Set (js ''c'') 3, Get (js ''b'')]"]
  have "run_ops (WorkerCache_new 2) (take 4 [Set (js ''a'') (1::nat), Set (js ''b'') 2, Get (js ''a''), Set (js ''c'') 3, Get (js ''b'')]) = Some C
    \<Longrightarrow> Map_size (cache C) \<le> 2" for C
    by blast
  from r this [OF r] show ?thesis by simp
qed

text \<open>
  Claim C4. In a cache built with maximum size \<open>m \<ge> 1\<close> and reached by any sequence of
  calls, \<open>set\<close> on a key that is not present removes the entries that must go to leave
  room for exactly one new entry, from the front of the map, and appends the new one.
  That is at most one entry, and every entry removed has a recency stamp below that of
  every entry kept: it is the least recently used, where \<open>get\<close> on a hit and \<open>set\<close>
  stamp the key.
\<close>

theorem lru_eviction:
  assumes "1 \<le> m"
    and "run_ops (WorkerCache_new m) xs = Some c"
    and "recency (WorkerCache_new m) xs 1 (\<lambda>_. 0) = Some s"
    and "\<not> Map_has (cache c) key"
  shows "WorkerCache_set c key v =
           Some (c\<lparr>cache := drop (Suc (Map_size (cache c)) - m) (cache c) @ [(key, v)]\<rparr>) \<and>
         Suc (Map_size (cache c)) - m \<le> 1 \<and>
         (\<forall>e \<in> set (take (Suc (Map_size (cache c)) - m) (cache c)).
            \<forall>x \<in> set (drop (Suc (Map_size (cache c)) - m) (cache c)). s (fst e) < s (fst x))"
proof -
  have "1 \<le> maxSize (WorkerCache_new m :: 'a WorkerCache)"
    using assms(1) by (simp add: WorkerCache_new_def)
  from lru_inv_run [OF lru_inv_new this, of xs] assms(2,3)
  have inv: "lru_inv c (1 + length xs) s" and m: "maxSize c = m"
    by (auto simp: WorkerCache_new_def)
  let ?n = "Suc (Map_size (cache c)) - m"
  have d: "distinct (map fst (cache c))" and le: "length (cache c) \<le> m"
    and so: "sorted_wrt (\<lambda>a b. s a < s b) (map fst (cache c))"
    using inv m by (simp_all add: lru_inv_def)
  have "1 \<le> maxSize c" using assms(1) m by simp
  from WorkerCache_set_distinct [OF this d, of key v]
  have 1: "WorkerCache_set c key v = Some (c\<lparr>cache := drop ?n (cache c) @ [(key, v)]\<rparr>)"
    by (simp add: Map_delete_absent [OF assms(4)] m Map_size_def)
  have 2: "?n \<le> 1" using le by (simp add: Map_size_def)
  have "sorted_wrt (\<lambda>a b. s a < s b) (map fst (take ?n (cache c)) @ map fst (drop ?n (cache c)))"
    using so by (simp flip: map_append)
  then have 3: "\<forall>e \<in> set (take ?n (cache c)). \<forall>x \<in> set (drop ?n (cache c)). s (fst e) < s (fst x)"
    by (simp add: sorted_wrt_append)
  from 1 2 3 show ?thesis by blast
qed

theorem lru_eviction_witness:
  "(1::nat) \<le> 2 \<and>
   run_ops (WorkerCache_new 2) [Set (js ''a'') (1::nat), Set (js ''b'') 2, Get (js ''a'')]
     = Some \<lparr>cache = [(js ''b'', 2), (js ''a'', 1)], maxSize = 2\<rparr> \<and>
   recency (WorkerCache_new 2) [Set (js ''a'') (1::nat), Set (js ''b'') 2, Get (js ''a'')] 1 (\<lambda>_. 0)
     = Some ((\<lambda>_. 0)(js ''a'' := 1, js ''b'' := 2, js ''a'' := 3)) \<and>
   \<not> Map_has [(js ''b'', 2::nat), (js ''a'', 1)] (js ''c'') \<and>
   WorkerCache_set \<lparr>cache = [(js ''b'', 2::nat), (js ''a'', 1)], maxSize = 2\<rparr> (js ''c'') 3
     = Some \<lparr>cache = [(js ''a'', 1), (js ''c'', 3)], maxSize = 2\<rparr> \<and>
   ((\<lambda>_. 0)(js ''a'' := 1, js ''b'' := 2, js ''a'' := 3)) (js ''b'')
     < ((\<lambda>_. 0::nat)(js ''a'' := 1, js ''b'' := 2, js ''a'' := 3)) (js ''a'')"
proof -
  let ?xs = "[Set (js ''a'') (1::nat), Set (js ''b'') 2, Get (js ''a'')]"
  let ?c = "\<lparr>cache = [(js ''b'', 2::nat), (js ''a'', 1)], maxSize = 2\<rparr>"
  let ?s = "(\<lambda>_. 0::nat)(js ''a'' := 1, js ''b'' := 2, js ''a'' := 3)"
  have 1: "(1::nat) \<le> 2" by simp
  have 2: "run_ops (WorkerCache_new 2) ?xs = Some ?c"
    by (simp add: cache_defs)
  have 3: "recency (WorkerCache_new 2) ?xs 1 (\<lambda>_. 0) = Some ?s"
    by (simp add: cache_defs numeral_2_eq_2 numeral_3_eq_3)
  have 4: "\<not> Map_has (cache ?c) (js ''c'')"
    by (simp add: cache_defs)
  from lru_eviction [OF 1 2 3 4, of 3] 1 2 3 4 show ?thesis
    by (simp add: Map_size_def)
qed





text \<open>
  Claim C7, as stated: when the sandbox cannot be instantiated, the request fails and
  no entry for its key is written to the cache. \<open>LOADER.get\<close> is not awaited: it hands
  out a stub, which the executor stores before it calls \<open>evaluate\<close>. When the sandbox
  behind the stub cannot be started, the request fails with the stub in the cache, and
  the next request for the key gets the same stub and fails again.
\<close>

theorem broken_sandbox_cached:
  "executeCode example_env broken_host codeExecutor_workerCache (js ''Aa'') (js ''acct'') (js ''token'')
     = Some (Inl (Error (js ''cannot start'')), cache_after_Aa) \<and>
   Map_has (cache cache_after_Aa) (apiCacheKey (js ''acct'') (simpleHash (js ''Aa''))) \<and>
   cache_after_Aa \<noteq> codeExecutor_workerCache \<and>
   executeCode example_env broken_host cache_after_Aa (js ''Aa'') (js ''acct'') (js ''token'')
     = Some (Inl (Error (js ''cannot start'')), cache_after_Aa)"
  by (simp add: exec_defs cache_defs Let_def example_env_def broken_host_def cache_after_Aa_def)

text \<open>
  Claim C7, amended. When the key is not in the cache and \<open>LOADER.get\<close> itself throws,
  the call fails with that failure and the cache is as before, with no entry for the
  key. When \<open>LOADER.get\<close> hands out a stub whose sandbox cannot be started, the call
  fails with the failure of the start, the stub is in the cache under the key, and
  every later call for the key is served by it, and fails the same way while its
  sandbox cannot be started. So for both executors.
\<close>

theorem construction_fault_caching:
  "(Map_get (cache wc) (apiCacheKey accountId (simpleHash code)) = None \<and>
    LOADER_get e (js ''cloudflare-api-'' @ apiCacheKey accountId (simpleHash code))
      (worker_definition (CodeExecutor_js (CLOUDFLARE_API_BASE e) accountId code)) = Inl f
    \<longrightarrow> executeCode e h wc code accountId apiToken = Some (Inl f, wc) \<and>
        \<not> Map_has (cache wc) (apiCacheKey accountId (simpleHash code))) \<and>
   (1 \<le> maxSize wc \<and>
    Map_get (cache wc) (apiCacheKey accountId (simpleHash code)) = None \<and>
    LOADER_get e (js ''cloudflare-api-'' @ apiCacheKey accountId (simpleHash code))
      (worker_definition (CodeExecutor_js (CLOUDFLARE_API_BASE e) accountId code)) = Inr w \<and>
    startup h w = Some f
    \<longrightarrow> (\<exists>wc1. executeCode e h wc code accountId apiToken = Some (Inl f, wc1) \<and>
               Map_get (cache wc1) (apiCacheKey accountId (simpleHash code)) = Some w \<and>
               (\<forall>e' t. executeCode e' h wc1 code accountId t = Some (Inl f, wc1)))) \<and>
   (Map_get (cache wc) (simpleHash code) = None \<and>
    LOADER_get e (js ''cloudflare-search-'' @ simpleHash code)
      (worker_definition (SearchExecutor_js specJson code)) = Inl f
    \<longrightarrow> executeSearch e h specJson wc code = Some (Inl f, wc) \<and>
        \<not> Map_has (cache wc) (simpleHash code)) \<and>
   (1 \<le> maxSize wc \<and>
    Map_get (cache wc) (simpleHash code) = None \<and>
    LOADER_get e (js ''cloudflare-search-'' @ simpleHash code)
      (worker_definition (SearchExecutor_js specJson code)) = Inr w \<and>
    startup h w = Some f
    \<longrightarrow> (\<exists>wc1. executeSearch e h specJson wc code = Some (Inl f, wc1) \<and>
               Map_get (cache wc1) (simpleHash code) = Some w \<and>
               (\<forall>e'. executeSearch e' h specJson wc1 code = Some (Inl f, wc1))))"
proof (intro conjI impI)
  assume "Map_get (cache wc) (apiCacheKey accountId (simpleHash code)) = None \<and>
    LOADER_get e (js ''cloudflare-api-'' @ apiCacheKey accountId (simpleHash code))
      (worker_definition (CodeExecutor_js (CLOUDFLARE_API_BASE e) accountId code)) = Inl f"
  then show "executeCode e h wc code accountId apiToken = Some (Inl f, wc)"
    and "\<not> Map_has (cache wc) (apiCacheKey accountId (simpleHash code))"
    by (simp_all add: executeCode_miss Map_has_get)
next
  assume "Map_get (cache wc) (simpleHash code) = None \<and>
    LOADER_get e (js ''cloudflare-search-'' @ simpleHash code)
      (worker_definition (SearchExecutor_js specJson code)) = Inl f"
  then show "executeSearch e h specJson wc code = Some (Inl f, wc)"
    and "\<not> Map_has (cache wc) (simpleHash code)"
    by (simp_all add: executeSearch_miss Map_has_get)
next
  let ?k = "apiCacheKey accountId (simpleHash code)"
  assume a: "1 \<le> maxSize wc \<and>
    Map_get (cache wc) ?k = None \<and>
    LOADER_get e (js ''cloudflare-api-'' @ ?k)
      (worker_definition (CodeExecutor_js (CLOUDFLARE_API_BASE e) accountId code)) = Inr w \<and>
    startup h w = Some f"
  then have a1: "1 \<le> maxSize wc" and a2: "Map_get (cache wc) ?k = None"
    and a3: "LOADER_get e (js ''cloudflare-api-'' @ ?k)
      (worker_definition (CodeExecutor_js (CLOUDFLARE_API_BASE e) accountId code)) = Inr w"
    and a4: "startup h w = Some f"
    by simp_all
  from api_build_then_hit [OF a1 a2 a3, of h] obtain wc1 where
    1: "\<And>t. executeCode e h wc code accountId t = Some (invoke h w (Str t), wc1)"
    and 2: "\<And>e' c2 t. simpleHash c2 = simpleHash code \<Longrightarrow>
                executeCode e' h wc1 c2 accountId t = Some (invoke h w (Str t), wc1)"
    and g: "Map_get (cache wc1) ?k = Some w"
    by blast
  have i: "invoke h w arg = Inl f" for arg
    using a4 by (rule invoke_broken)
  have "\<forall>e' t. executeCode e' h wc1 code accountId t = Some (Inl f, wc1)"
    using 2 by (simp add: i)
  with 1 [of apiToken] g
  show "\<exists>wc1. executeCode e h wc code accountId apiToken = Some (Inl f, wc1) \<and>
               Map_get (cache wc1) ?k = Some w \<and>
               (\<forall>e' t. executeCode e' h wc1 code accountId t = Some (Inl f, wc1))"
    unfolding i by blast
next
  let ?k = "simpleHash code"
  assume a: "1 \<le> maxSize wc \<and>
    Map_get (cache wc) ?k = None \<and>
    LOADER_get e (js ''cloudflare-search-'' @ ?k)
      (worker_definition (SearchExecutor_js specJson code)) = Inr w \<and>
    startup h w = Some f"
  then have a1: "1 \<le> maxSize wc" and a2: "Map_get (cache wc) ?k = None"
    and a3: "LOADER_get e (js ''cloudflare-search-'' @ ?k)
      (worker_definition (SearchExecutor_js specJson code)) = Inr w"
    and a4: "startup h w = Some f"
    by simp_all
  from search_build_then_hit [OF a1 a2 a3, of h] obtain wc1 where
    1: "executeSearch e h specJson wc code = Some (invoke h w Undefined, wc1)"
    and 2: "\<And>e' c2. simpleHash c2 = simpleHash code \<Longrightarrow>
                executeSearch e' h specJson wc1 c2 = Some (invoke h w Undefined, wc1)"
    and g: "Map_get (cache wc1) ?k = Some w"
    by blast
  have i: "invoke h w arg = Inl f" for arg
    using a4 by (rule invoke_broken)
  have "\<forall>e'. executeSearch e' h specJson wc1 code = Some (Inl f, wc1)"
    using 2 by (simp add: i)
  with 1 g
  show "\<exists>wc1. executeSearch e h specJson wc code = Some (Inl f, wc1) \<and>
               Map_get (cache wc1) ?k = Some w \<and>
               (\<forall>e'. executeSearch e' h specJson wc1 code = Some (Inl f, wc1))"
    unfolding i by blast
qed

theorem construction_fault_caching_witness:
  "(Map_get (cache codeExecutor_workerCache) (apiCacheKey (js ''acct'') (simpleHash (js ''Aa''))) = None \<and>
    LOADER_get failing_env (js ''cloudflare-api-'' @ apiCacheKey (js ''acct'') (simpleHash (js ''Aa'')))
       (worker_definition (CodeExecutor_js (CLOUDFLARE_API_BASE failing_env) (js ''acct'') (js ''Aa'')))
      = Inl (Error (js ''cannot instantiate'')) \<and>
    executeCode failing_env echo_host codeExecutor_workerCache (js ''Aa'') (js ''acct'') (js ''t1'')
      = Some (Inl (Error (js ''cannot instantiate'')), codeExecutor_workerCache)) \<and>
   (1 \<le> maxSize codeExecutor_workerCache \<and>
    LOADER_get example_env (js ''cloudflare-api-'' @ apiCacheKey (js ''acct'') (simpleHash (js ''Aa'')))
       (worker_definition (CodeExecutor_js (CLOUDFLARE_API_BASE example_env) (js ''acct'') (js ''Aa'')))
      = Inr (WorkerStub (js ''cloudflare-api-'' @ apiCacheKey (js ''acct'') (simpleHash (js ''Aa'')))
               (worker_definition (CodeExecutor_js (CLOUDFLARE_API_BASE example_env) (js ''acct'') (js ''Aa'')))) \<and>
    startup broken_host
       (WorkerStub (js ''cloudflare-api-'' @ apiCacheKey (js ''acct'') (simpleHash (js ''Aa'')))
          (worker_definition (CodeExecutor_js (CLOUDFLARE_API_BASE example_env) (js ''acct'') (js ''Aa''))))
      = Some (Error (js ''cannot start'')) \<and>
    (\<exists>wc1. executeCode example_env broken_host codeExecutor_workerCache (js ''Aa'') (js ''acct'') (js ''t1'')
             = Some (Inl (Error (js ''cannot start'')), wc1) \<and>
           Map_get (cache wc1) (apiCacheKey (js ''acct'') (simpleHash (js ''Aa''))) =
             Some (WorkerStub (js ''cloudflare-api-'' @ apiCacheKey (js ''acct'') (simpleHash (js ''Aa'')))
                    (worker_definition (CodeExecutor_js (CLOUDFLARE_API_BASE example_env) (js ''acct'') (js ''Aa'')))) \<and>
           executeCode failing_env broken_host wc1 (js ''Aa'') (js ''acct'') (js ''t2'')
             = Some (Inl (Error (js ''cannot start'')), wc1))) \<and>
   (Map_get (cache searchExecutor_workerCache) (simpleHash (js ''Aa'')) = None \<and>
    LOADER_get failing_env (js ''cloudflare-search-'' @ simpleHash (js ''Aa''))
       (worker_definition (SearchExecutor_js (js ''{}'') (js ''Aa'')))
      = Inl (Error (js ''cannot instantiate'')) \<and>
    executeSearch failing_env echo_host (js ''{}'') searchExecutor_workerCache (js ''Aa'')
      = Some (Inl (Error (js ''cannot instantiate'')), searchExecutor_workerCache)) \<and>
   (1 \<le> maxSize searchExecutor_workerCache \<and>
    LOADER_get example_env (js ''cloudflare-search-'' @ simpleHash (js ''Aa''))
       (worker_definition (SearchExecutor_js (js ''{}'') (js ''Aa'')))
      = Inr (WorkerStub (js ''cloudflare-search-'' @ simpleHash (js ''Aa''))
               (worker_definition (SearchExecutor_js (js ''{}'') (js ''Aa'')))) \<and>
    (\<exists>wc1. executeSearch example_env broken_host (js ''{}'') searchExecutor_workerCache (js ''Aa'')
             = Some (Inl (Error (js ''cannot start'')), wc1) \<and>
           Map_get (cache wc1) (simpleHash (js ''Aa'')) =
             Some (WorkerStub (js ''cloudflare-search-'' @ simpleHash (js ''Aa''))
                    (worker_definition (SearchExecutor_js (js ''{}'') (js ''Aa'')))) \<and>
           executeSearch failing_env broken_host (js ''{}'') wc1 (js ''Aa'')
             = Some (Inl (Error (js ''cannot start'')), wc1)))"
proof -
  let ?ka = "apiCacheKey (js ''acct'') (simpleHash (js ''Aa''))"
  let ?da = "worker_definition (CodeExecutor_js (CLOUDFLARE_API_BASE example_env) (js ''acct'') (js ''Aa''))"
  let ?wa = "WorkerStub (js ''cloudflare-api-'' @ ?ka) ?da"
  let ?ks = "simpleHash (js ''Aa'')"
  let ?ds = "worker_definition (SearchExecutor_js (js ''{}'') (js ''Aa''))"
  let ?ws = "WorkerStub (js ''cloudflare-search-'' @ ?ks) ?ds"
  let ?f = "Error (js ''cannot instantiate'')"
  let ?g = "Error (js ''cannot start'')"
  have 1: "1 \<le> maxSize codeExecutor_workerCache"
    by (simp add: codeExecutor_workerCache_def WorkerCache_new_def)
  have s1: "1 \<le> maxSize searchExecutor_workerCache"
    by (simp add: searchExecutor_workerCache_def WorkerCache_new_def)
  have 2: "Map_get (cache codeExecutor_workerCache) k = None" for k
    by (simp add: codeExecutor_workerCache_def WorkerCache_new_def Map_get_def)
  have s2: "Map_get (cache searchExecutor_workerCache) k = None" for k
    by (simp add: searchExecutor_workerCache_def WorkerCache_new_def Map_get_def)
  have 3: "LOADER_get failing_env i d = Inl ?f" for i d
    by (simp add: failing_env_def)
  have 4: "LOADER_get example_env i d = Inr (WorkerStub i d)" for i d
    by (simp add: example_env_def)
  have 5: "startup broken_host w = Some ?g" for w
    by (simp add: broken_host_def)
  note A = construction_fault_caching [where wc = codeExecutor_workerCache
      and accountId = "js ''acct''" and code = "js ''Aa''" and e = failing_env and f = ?f
      and h = echo_host and apiToken = "js ''t1''"]
  from A [THEN conjunct1, rule_format, OF conjI [OF 2 3]]
  have a: "executeCode failing_env echo_host codeExecutor_workerCache (js ''Aa'') (js ''acct'') (js ''t1'')
      = Some (Inl ?f, codeExecutor_workerCache)"
    by (rule conjunct1)
  note B = construction_fault_caching [where wc = codeExecutor_workerCache
      and accountId = "js ''acct''" and code = "js ''Aa''" and e = example_env and f = ?g
      and h = broken_host and apiToken = "js ''t1''" and w = ?wa]
  from B [THEN conjunct2, THEN conjunct1, rule_format, OF conjI [OF 1 conjI [OF 2 conjI [OF 4 5]]]]
  obtain wc1 where
    b1: "executeCode example_env broken_host codeExecutor_workerCache (js ''Aa'') (js ''acct'') (js ''t1'')
           = Some (Inl ?g, wc1)"
    and b2: "Map_get (cache wc1) ?ka = Some ?wa"
    and b3: "\<And>e' t. executeCode e' broken_host wc1 (js ''Aa'') (js ''acct'') t = Some (Inl ?g, wc1)"
    by blast
  from b1 b2 b3 [of failing_env "js ''t2''"]
  have b: "\<exists>wc1. executeCode example_env broken_host codeExecutor_workerCache (js ''Aa'') (js ''acct'') (js ''t1'')
             = Some (Inl ?g, wc1) \<and>
           Map_get (cache wc1) ?ka = Some ?wa \<and>
           executeCode failing_env broken_host wc1 (js ''Aa'') (js ''acct'') (js ''t2'')
             = Some (Inl ?g, wc1)"
    by blast
  note C = construction_fault_caching [where wc = searchExecutor_workerCache
      and code = "js ''Aa''" and e = failing_env and f = ?f
      and h = echo_host and specJson = "js ''{}''"]
  from C [THEN conjunct2, THEN conjunct2, THEN conjunct1, rule_format, OF conjI [OF s2 3]]
  have c: "executeSearch failing_env echo_host (js ''{}'') searchExecutor_workerCache (js ''Aa'')
      = Some (Inl ?f, searchExecutor_workerCache)"
    by (rule conjunct1)
  note D = construction_fault_caching [where wc = searchExecutor_workerCache
      and code = "js ''Aa''" and e = example_env and f = ?g
      and h = broken_host and specJson = "js ''{}''" and w = ?ws]
  from D [THEN conjunct2, THEN conjunct2, THEN conjunct2, rule_format,
      OF conjI [OF s1 conjI [OF s2 conjI [OF 4 5]]]]
  obtain wc2 where
    d1: "executeSearch example_env broken_host (js ''{}'') searchExecutor_workerCache (js ''Aa'')
           = Some (Inl ?g, wc2)"
    and d2: "Map_get (cache wc2) ?ks = Some ?ws"
    and d3: "\<And>e'. executeSearch e' broken_host (js ''{}'') wc2 (js ''Aa'') = Some (Inl ?g, wc2)"
    by blast
  from d1 d2 d3 [of failing_env]
  have d: "\<exists>wc1. executeSearch example_env broken_host (js ''{}'') searchExecutor_workerCache (js ''Aa'')
             = Some (Inl ?g, wc1) \<and>
           Map_get (cache wc1) ?ks = Some ?ws \<and>
           executeSearch failing_env broken_host (js ''{}'') wc1 (js ''Aa'')
             = Some (Inl ?g, wc1)"
    by blast
  show ?thesis
    apply (intro conjI)
               apply (rule 2)
              apply (rule 3)
             apply (rule a)
            apply (rule 1)
           apply (rule 4)
          apply (rule 5)
         apply (rule b)
        apply (rule s2)
       apply (rule 3)
      apply (rule c)
     apply (rule s1)
    apply (rule 4)
    apply (rule d)
    done
qed

text \<open>
  Claim C8. A result whose text is over the budget of 10,000 token-equivalents (and
  is a string JavaScript can hold, shorter than \<open>2^53\<close>) is truncated to a text within
  the budget that ends with the indicator of the original size.
\<close>

theorem truncation_bound:
  assumes "truncation_budget < token_equivalents (serialize r)"
    and "length (serialize r) < 2 ^ 53"
  shows "token_equivalents (truncateResponse serialize r) \<le> truncation_budget \<and>
         (\<exists>kept. truncateResponse serialize r = kept @ size_indicator (length (serialize r)))"
proof -
  let ?s = "serialize r"
  let ?i = "size_indicator (length ?s)"
  have i: "length ?i \<le> 60" using assms(2) by (rule size_indicator_length)
  have t: "truncateResponse serialize r = take (4 * truncation_budget - length ?i) ?s @ ?i"
    using assms(1) by (simp add: truncateResponse_def Let_def)
  have "length (truncateResponse serialize r) \<le> 4 * truncation_budget"
    using i by (simp add: t truncation_budget_def)
  then have "token_equivalents (truncateResponse serialize r) \<le> truncation_budget"
    by (simp add: token_equivalents_def)
  with t show ?thesis by blast
qed

theorem truncation_bound_witness:
  "truncation_budget < token_equivalents (replicate 40001 (120 :: 16 word)) \<and>
   length (replicate 40001 (120 :: 16 word)) < 2 ^ 53 \<and>
   token_equivalents (truncateResponse (\<lambda>r. r) (replicate 40001 (120 :: 16 word))) \<le> truncation_budget \<and>
   (\<exists>kept. truncateResponse (\<lambda>r. r) (replicate 40001 (120 :: 16 word)) = kept @ size_indicator 40001)"
proof -
  have 1: "truncation_budget < token_equivalents ((\<lambda>r. r) (replicate 40001 (120 :: 16 word)))"
    by (simp add: truncation_budget_def token_equivalents_def)
  have 2: "length ((\<lambda>r. r) (replicate 40001 (120 :: 16 word))) < 2 ^ 53"
    by simp
  from truncation_bound [of "\<lambda>r. r" "replicate 40001 (120 :: 16 word)", OF 1 2] 1 2
  show ?thesis by simp
qed

text \<open>
  Claim C9. \<open>simpleHash\<close> is a function whose value is the base-36 text of a 32-bit
  signed integer, so it takes at most \<open>2^32\<close> values and is not injective: the
  strings \<open>Aa\<close> and \<open>BB\<close> differ and have the same hash, hence the same cache key
  for any account.
\<close>

theorem simpleHash_collision:
  "(\<exists>n. - (2 ^ 31) \<le> n \<and> n < 2 ^ 31 \<and> simpleHash str = toString36 n) \<and>
   finite (range simpleHash) \<and> card (range simpleHash) \<le> 2 ^ 32 \<and>
   \<not> inj simpleHash \<and>
   js ''Aa'' \<noteq> js ''BB'' \<and>
   simpleHash (js ''Aa'') = simpleHash (js ''BB'') \<and>
   apiCacheKey accountId (simpleHash (js ''Aa'')) = apiCacheKey accountId (simpleHash (js ''BB''))"
proof -
  have "\<not> inj simpleHash"
  proof
    assume "inj simpleHash"
    then have "js ''Aa'' = js ''BB''"
      using collide by (simp add: inj_def)
    with differ show False by simp
  qed
  then show ?thesis
    using simpleHash_int32 [of str] simpleHash_card collide differ by simp
qed

text \<open>
  Claim C10. On a cache with maximum size at least 1, \<open>set(key, v)\<close> returns, and then
  \<open>get(key)\<close> returns \<open>v\<close>: the key is in the map, it is the last (most recently used)
  entry, and the \<open>get\<close> leaves the map as it is.
\<close>

theorem set_then_get:
  assumes "1 \<le> maxSize c"
  shows "\<exists>c'. WorkerCache_set c key v = Some c' \<and>
           fst (WorkerCache_get c' key) = Some v \<and>
           Map_has (cache c') key \<and>
           last (cache c') = (key, v) \<and>
           cache (snd (WorkerCache_get c' key)) = cache c'"
proof -
  from evict_total [OF assms] obtain mp where mp: "evict (maxSize c) (Map_delete (cache c) key) = Some mp"
    by blast
  have "set mp \<subseteq> set (Map_delete (cache c) key)"
    using evict_partial [OF mp] by simp
  then have no: "\<not> Map_has mp key"
    using Map_delete_not_has [of "cache c" key] by (auto simp: Map_has_def)
  let ?c' = "c\<lparr>cache := mp @ [(key, v)]\<rparr>"
  have 1: "WorkerCache_set c key v = Some ?c'"
    by (simp add: WorkerCache_set_eq mp)
  have "map_of mp key = None"
    using no by (simp add: Map_has_def map_of_eq_None_iff)
  then have g: "Map_get (cache ?c') key = Some v"
    by (simp add: Map_get_def map_add_def)
  have del: "Map_delete (mp @ [(key, v)]) key = mp"
    using Map_delete_absent [OF no] by (simp add: Map_delete_def)
  have 2: "WorkerCache_get ?c' key = (Some v, ?c')"
    by (simp add: WorkerCache_get_hit [OF g] del)
  have 3: "Map_has (cache ?c') key" by (simp add: Map_has_def)
  from 1 2 3 show ?thesis by simp
qed

theorem set_then_get_witness:
  "1 \<le> maxSize \<lparr>cache = [(js ''a'', 1::nat), (js ''b'', 2)], maxSize = 2\<rparr> \<and>
   (\<exists>c'. WorkerCache_set \<lparr>cache = [(js ''a'', 1::nat), (js ''b'', 2)], maxSize = 2\<rparr> (js ''c'') 3 = Some c' \<and>
         fst (WorkerCache_get c' (js ''c'')) = Some 3 \<and>
         Map_has (cache c') (js ''c'') \<and>
         last (cache c') = (js ''c'', 3) \<and>
         cache (snd (WorkerCache_get c' (js ''c''))) = cache c')"
proof -
  have 1: "1 \<le> maxSize \<lparr>cache = [(js ''a'', 1::nat), (js ''b'', 2)], maxSize = 2\<rparr>" by simp
  from set_then_get [OF 1, of "js ''c''" 3] 1 show ?thesis by blast
qed

end
